theory Spec2Isabelle
  imports Main "HOL-Library.Extended_Nat"
begin

unbundle bit_operations_syntax

section \<open>Python values and exceptions\<close>

text \<open>
  The values that can reach a message attribute. Python integers are unbounded (\<open>int\<close>).
  The representation of floating point numbers is left open: \<open>'f\<close> is the type of
  floats, and the built-in operations that the module applies to them (\<open>float(text)\<close>,
  the truth value, and \<open>str\<close>, which is also left open for every value that is not
  an integer) are passed to the functions that use them as a record.
  \<open>VSeq\<close> is a finite sequence (a list or a tuple), \<open>VStr\<close> a string.
\<close>

datatype 'f pyval =
    VInt int
  | VFloat 'f
  | VStr string
  | VSeq "'f pyval list"
  | VNone

record 'f builtins =
  float_parse :: "string \<Rightarrow> 'f option"  \<comment> \<open>\<open>float(text)\<close>; \<open>None\<close> is its ValueError\<close>
  float_truth :: "'f \<Rightarrow> bool"           \<comment> \<open>the truth value of a float: it is not zero\<close>
  str_other :: "'f pyval \<Rightarrow> string"     \<comment> \<open>\<open>str(x)\<close> of a value that is not an integer\<close>

text \<open>
  The text of an exception is kept as a list of pieces: literal text of the module, the
  \<open>repr\<close> of a string (left unrendered), and text chosen by an interpreter built-in.
\<close>

datatype piece = Lit string | ReprOf string | InterpText

type_synonym errmsg = "piece list"

datatype error =
    ValueError errmsg
  | TypeError errmsg
  | AttributeError errmsg
  | NameError errmsg

fun message :: "error \<Rightarrow> errmsg" where
  "message (ValueError t) = t"
| "message (TypeError t) = t"
| "message (AttributeError t) = t"
| "message (NameError t) = t"

section \<open>Decimal text of integers\<close>

definition digit_char :: "nat \<Rightarrow> char" where
  "digit_char d = char_of ((of_char (CHR ''0'') :: nat) + d)"

fun str_nat :: "nat \<Rightarrow> string" where
  "str_nat n = (if n < 10 then [digit_char n] else str_nat (n div 10) @ [digit_char (n mod 10)])"

declare str_nat.simps [simp del]

definition str_int :: "int \<Rightarrow> string" where
  \<comment> \<open>\<open>str(i)\<close> of an integer\<close>
  "str_int i = (if i < 0 then CHR ''-'' # str_nat (nat (- i)) else str_nat (nat i))"

definition is_digit :: "char \<Rightarrow> bool" where
  "is_digit c = ((of_char (CHR ''0'') :: nat) \<le> of_char c \<and> (of_char c :: nat) \<le> of_char (CHR ''9''))"

definition digit_val :: "char \<Rightarrow> nat" where
  "digit_val c = (of_char c :: nat) - of_char (CHR ''0'')"

definition is_space :: "char \<Rightarrow> bool" where
  \<comment> \<open>the whitespace of \<open>str.split()\<close>, \<open>str.strip()\<close> and \<open>int()\<close>\<close>
  "is_space c = (c \<in> {CHR '' '', CHR 0x09, CHR 0x0A, CHR 0x0B, CHR 0x0C, CHR 0x0D})"

definition strip :: "string \<Rightarrow> string" where
  "strip s = rev (dropWhile is_space (rev (dropWhile is_space s)))"

definition digits_val :: "string \<Rightarrow> nat" where
  "digits_val ds = foldl (\<lambda>acc c. 10 * acc + digit_val c) 0 ds"

definition py_digits :: "string \<Rightarrow> nat option" where
  "py_digits ds = (if ds \<noteq> [] \<and> list_all is_digit ds then Some (digits_val ds) else None)"

definition py_int :: "string \<Rightarrow> int option" where
  \<comment> \<open>\<open>int(text)\<close>: surrounding whitespace, an optional sign, decimal digits;
      \<open>None\<close> is its ValueError\<close>
  "py_int text =
     (case strip text of
        [] \<Rightarrow> None
      | c # cs \<Rightarrow>
          if c = CHR ''-'' then map_option (\<lambda>n. - int n) (py_digits cs)
          else if c = CHR ''+'' then map_option int (py_digits cs)
          else map_option int (py_digits (c # cs)))"

section \<open>Message specifications\<close>

definition MIN_PITCHWHEEL :: int where "MIN_PITCHWHEEL = - 8192"
definition MAX_PITCHWHEEL :: int where "MAX_PITCHWHEEL = 8191"
definition MIN_SONGPOS :: int where "MIN_SONGPOS = 0"
definition MAX_SONGPOS :: int where "MAX_SONGPOS = 16383"

record MessageSpec =
  status_byte :: int
  spec_type :: string
  arguments :: "string list"
  size :: enat  \<comment> \<open>\<open>\<infinity>\<close> is \<open>float('inf')\<close>\<close>

definition valid_attributes :: "MessageSpec \<Rightarrow> string set" where
  "valid_attributes spec = set (arguments spec) \<union> {''time''}"

definition mk_spec :: "int \<Rightarrow> string \<Rightarrow> string list \<Rightarrow> enat \<Rightarrow> MessageSpec" where
  "mk_spec sb t args sz = \<lparr>status_byte = sb, spec_type = t, arguments = args, size = sz\<rparr>"

definition get_message_specs :: "MessageSpec list" where
  "get_message_specs = [
     mk_spec 0x80 ''note_off'' [''channel'', ''note'', ''velocity''] 3,
     mk_spec 0x90 ''note_on'' [''channel'', ''note'', ''velocity''] 3,
     mk_spec 0xa0 ''polytouch'' [''channel'', ''note'', ''value''] 3,
     mk_spec 0xb0 ''control_change'' [''channel'', ''control'', ''value''] 3,
     mk_spec 0xc0 ''program_change'' [''channel'', ''program''] 3,
     mk_spec 0xd0 ''aftertouch'' [''channel'', ''value''] 3,
     mk_spec 0xe0 ''pitchwheel'' [''channel'', ''pitch''] 3,
     mk_spec 0xf0 ''sysex'' [''data''] \<infinity>,
     mk_spec 0xf1 ''undefined_f1'' [] 1,
     mk_spec 0xf2 ''songpos'' [''pos''] 3,
     mk_spec 0xf3 ''song'' [''song''] 2,
     mk_spec 0xf4 ''undefined_f4'' [] 1,
     mk_spec 0xf5 ''undefined_f5'' [] 1,
     mk_spec 0xf6 ''tune_request'' [] 1,
     mk_spec 0xf7 ''sysex_end'' [] 1,
     mk_spec 0xf8 ''clock'' [] 1,
     mk_spec 0xf9 ''undefined_f9'' [] 1,
     mk_spec 0xfa ''start'' [] 1,
     mk_spec 0xfb ''continue'' [] 1,
     mk_spec 0xfc ''stop'' [] 1,
     mk_spec 0xfd ''undefined_fd'' [] 1,
     mk_spec 0xfe ''active_sensing'' [] 1,
     mk_spec 0xff ''reset'' [] 1]"

section \<open>Checks\<close>

text \<open>
  A check returns \<open>Inl\<close> of the exception it raises, or \<open>Inr\<close> of its return value:
  \<open>VNone\<close> for all checks but \<open>check_data\<close>, which returns the data as a tuple.
\<close>

fun check_time :: "'f pyval \<Rightarrow> error + 'f pyval" where
  "check_time (VInt t) = Inr VNone"
| "check_time (VFloat t) = Inr VNone"
| "check_time _ = Inl (TypeError [Lit ''time must be an integer or float''])"

fun check_channel :: "'f pyval \<Rightarrow> error + 'f pyval" where
  "check_channel (VInt channel) =
     (if \<not> (0 \<le> channel \<and> channel \<le> 15)
      then Inl (ValueError [Lit ''channel must be in range 0 .. 15''])
      else Inr VNone)"
| "check_channel _ = Inl (TypeError [Lit ''channel must be an integer''])"

fun check_pos :: "'f pyval \<Rightarrow> error + 'f pyval" where
  "check_pos (VInt pos) =
     (if \<not> (MIN_SONGPOS \<le> pos \<and> pos \<le> MAX_SONGPOS)
      then Inl (ValueError [Lit ''song pos must be in range '', Lit (str_int MIN_SONGPOS),
                            Lit '' .. '', Lit (str_int MAX_SONGPOS)])
      else Inr VNone)"
| "check_pos _ = Inl (TypeError [Lit ''song pos must be and integer''])"

fun check_pitch :: "'f pyval \<Rightarrow> error + 'f pyval" where
  "check_pitch (VInt pitch) =
     (if \<not> (MIN_PITCHWHEEL \<le> pitch \<and> pitch \<le> MAX_PITCHWHEEL)
      then Inl (ValueError [Lit ''pitchwheel value must be in range '',
                            Lit (str_int MIN_PITCHWHEEL), Lit '' .. '',
                            Lit (str_int MAX_PITCHWHEEL)])
      else Inr VNone)"
| "check_pitch _ = Inl (TypeError [Lit ''pichwheel value must be an integer''])"

fun check_databyte :: "'f pyval \<Rightarrow> error + 'f pyval" where
  "check_databyte (VInt v) =
     (if \<not> (0 \<le> v \<and> v \<le> 127)
      then Inl (ValueError [Lit ''data byte must be in range 0 .. 127''])
      else Inr VNone)"
| "check_databyte _ = Inl (TypeError [Lit ''data byte must be an integer''])"

fun py_tuple :: "'f pyval \<Rightarrow> error + 'f pyval list" where
  \<comment> \<open>\<open>tuple(x)\<close>: a string iterates over its characters; a number or None is not iterable\<close>
  "py_tuple (VSeq xs) = Inr xs"
| "py_tuple (VStr s) = Inr (map (\<lambda>c. VStr [c]) s)"
| "py_tuple _ = Inl (TypeError [InterpText])"

fun check_each_databyte :: "'f pyval list \<Rightarrow> error + unit" where
  \<comment> \<open>the loop \<open>for byte in data_bytes: check_databyte(byte)\<close>\<close>
  "check_each_databyte [] = Inr ()"
| "check_each_databyte (byte # rest) =
     (case check_databyte byte of
        Inl e \<Rightarrow> Inl e
      | Inr _ \<Rightarrow> check_each_databyte rest)"

definition check_data :: "'f pyval \<Rightarrow> error + 'f pyval" where
  "check_data data_bytes =
     (case py_tuple data_bytes of
        Inl e \<Rightarrow> Inl e
      | Inr t \<Rightarrow>
          (case check_each_databyte t of
             Inl e \<Rightarrow> Inl e
           | Inr _ \<Rightarrow> Inr (VSeq t)))"

definition globals_check :: "string \<Rightarrow> ('f pyval \<Rightarrow> error + 'f pyval) option" where
  \<comment> \<open>\<open>globals()['check_' + name]\<close>; \<open>None\<close> is its KeyError\<close>
  "globals_check name =
     (if name = ''time'' then Some check_time
      else if name = ''channel'' then Some check_channel
      else if name = ''pos'' then Some check_pos
      else if name = ''pitch'' then Some check_pitch
      else if name = ''data'' then Some check_data
      else if name = ''databyte'' then Some check_databyte
      else None)"

definition lookup_check :: "string \<Rightarrow> 'f pyval \<Rightarrow> error + 'f pyval" where
  \<comment> \<open>the check that \<open>__setattr__\<close> picks: \<open>check_databyte\<close> on KeyError\<close>
  "lookup_check name = (case globals_check name of Some c \<Rightarrow> c | None \<Rightarrow> check_databyte)"

section \<open>Encoders\<close>

definition encode_channel :: "'f pyval \<Rightarrow> error + 'f pyval list" where
  "encode_channel channel = Inr []"

fun encode_data :: "'f pyval \<Rightarrow> error + 'f pyval list" where
  "encode_data (VSeq data) = Inr (data @ [VInt 0xf7])"
| "encode_data (VStr s) = Inr (map (\<lambda>c. VStr [c]) s @ [VInt 0xf7])"
| "encode_data _ = Inl (TypeError [InterpText])"

fun encode_pitch :: "'f pyval \<Rightarrow> error + 'f pyval list" where
  "encode_pitch (VInt pitch) =
     (let pitch = pitch - MIN_PITCHWHEEL
      in Inr [VInt (pitch AND 0x7f), VInt (drop_bit 7 pitch)])"
| "encode_pitch _ = Inl (TypeError [InterpText])"

fun encode_pos :: "'f pyval \<Rightarrow> error + 'f pyval list" where
  "encode_pos (VInt pos) = Inr [VInt (pos AND 0x7f), VInt (drop_bit 7 pos)]"
| "encode_pos _ = Inl (TypeError [InterpText])"

definition globals_encode :: "string \<Rightarrow> ('f pyval \<Rightarrow> error + 'f pyval list) option" where
  \<comment> \<open>\<open>globals()['encode_' + name]\<close>; \<open>None\<close> is its KeyError\<close>
  "globals_encode name =
     (if name = ''channel'' then Some encode_channel
      else if name = ''data'' then Some encode_data
      else if name = ''pitch'' then Some encode_pitch
      else if name = ''pos'' then Some encode_pos
      else None)"

section \<open>The registry\<close>

datatype key = KInt int | KStr string

definition add_spec :: "MessageSpec \<Rightarrow> (key \<rightharpoonup> MessageSpec) \<Rightarrow> (key \<rightharpoonup> MessageSpec)" where
  \<comment> \<open>one round of the loop that builds \<open>_spec_lookup\<close>\<close>
  "add_spec spec lookup =
     (let lookup1 =
        (if status_byte spec < 0xf0
         then fold (\<lambda>channel l. l(KInt (status_byte spec OR channel) \<mapsto> spec)) [0..15] lookup
         else lookup(KInt (status_byte spec) \<mapsto> spec))
      in lookup1(KStr (spec_type spec) \<mapsto> spec))"

definition spec_lookup :: "key \<rightharpoonup> MessageSpec" where
  "spec_lookup = fold add_spec get_message_specs Map.empty"

definition spec_keys :: "MessageSpec \<Rightarrow> key list" where
  \<comment> \<open>the keys that one round of the loop binds to the descriptor\<close>
  "spec_keys spec =
     (if status_byte spec < 0xf0
      then map (\<lambda>channel. KInt (status_byte spec OR channel)) [0..15]
      else [KInt (status_byte spec)]) @ [KStr (spec_type spec)]"

section \<open>Messages\<close>

text \<open>
  The state of a message object: the entries \<open>_spec\<close> and \<open>type\<close> of its
  \<open>__dict__\<close>, and the other entries as a map from attribute names to values.
\<close>

record 'f Message =
  spec :: MessageSpec
  mtype :: string
  attrs :: "string \<rightharpoonup> 'f pyval"

definition in_dict :: "'f Message \<Rightarrow> string \<Rightarrow> bool" where
  \<comment> \<open>\<open>name in self.__dict__\<close>\<close>
  "in_dict m name = (name = ''_spec'' \<or> name = ''type'' \<or> name \<in> dom (attrs m))"

definition set_raw :: "'f Message \<Rightarrow> string \<Rightarrow> 'f pyval \<Rightarrow> 'f Message" where
  \<comment> \<open>\<open>_set\<close> for the attributes other than \<open>_spec\<close> and \<open>type\<close>\<close>
  "set_raw m name v = m\<lparr>attrs := (attrs m)(name \<mapsto> v)\<rparr>"

definition setattr :: "'f Message \<Rightarrow> string \<Rightarrow> 'f pyval \<Rightarrow> error option \<times> 'f Message" where
  \<comment> \<open>\<open>__setattr__\<close>: the exception raised, if any, and the object afterwards\<close>
  "setattr m name v =
     (if name \<in> valid_attributes (spec m) then
        (let check = lookup_check name
         in case check v of
              Inl e \<Rightarrow> (Some e, m)
            | Inr ret \<Rightarrow>
                (let v = (if name = ''data'' then ret else v)
                 in (None, m\<lparr>attrs := (attrs m)(name \<mapsto> v)\<rparr>)))
      else if in_dict m name then
        (Some (AttributeError [Lit name, Lit '' attribute is read only'']), m)
      else
        (Some (AttributeError [Lit (mtype m), Lit '' message has no attribute '', Lit name]), m))"

definition getattr :: "'f Message \<Rightarrow> string \<Rightarrow> error + 'f pyval" where
  "getattr m name =
     (case attrs m name of
        Some v \<Rightarrow> Inr v
      | None \<Rightarrow> Inl (AttributeError [InterpText]))"

fun set_defaults :: "key \<Rightarrow> string list \<Rightarrow> 'f Message \<Rightarrow> error option \<times> 'f Message" where
  \<comment> \<open>the loop of \<open>__init__\<close> over \<open>self._spec.arguments\<close>\<close>
  "set_defaults k [] m = (None, m)"
| "set_defaults k (name # names) m =
     (let (r, m1) =
        (if name = ''data'' then setattr m ''data'' (VSeq [])
         else if name = ''channel'' then
           (case k of
              KInt i \<Rightarrow> setattr m ''channel'' (VInt (i AND 0x0f))
            | KStr _ \<Rightarrow> setattr m ''channel'' (VInt 0))
         else setattr m name (VInt 0))
      in case r of
           Some e \<Rightarrow> (Some e, m1)
         | None \<Rightarrow> set_defaults k names m1)"

fun set_arguments :: "(string \<times> 'f pyval) list \<Rightarrow> 'f Message \<Rightarrow> error option \<times> 'f Message" where
  \<comment> \<open>the loop of \<open>__init__\<close> over the keyword arguments, in the order they are iterated\<close>
  "set_arguments [] m = (None, m)"
| "set_arguments ((name, v) # rest) m =
     (case setattr m name v of
        (Some (AttributeError _), m1) \<Rightarrow>
          (Some (ValueError [ReprOf name,
                   Lit '' is an invalid keyword argument for this message type'']), m1)
      | (Some e, m1) \<Rightarrow> (Some e, m1)
      | (None, m1) \<Rightarrow> set_arguments rest m1)"

definition key_repr :: "key \<Rightarrow> piece" where
  "key_repr k = (case k of KInt i \<Rightarrow> Lit (str_int i) | KStr s \<Rightarrow> ReprOf s)"

definition Message_init :: "key \<Rightarrow> (string \<times> 'f pyval) list \<Rightarrow> error + 'f Message" where
  \<comment> \<open>the body of \<open>__init__(self, type_, **arguments)\<close>: the object is returned only if
      the body raises nothing\<close>
  "Message_init k kwargs =
     (case spec_lookup k of
        None \<Rightarrow> Inl (ValueError [key_repr k, Lit '' is an invalid type name or status byte''])
      | Some sp \<Rightarrow>
          (let m0 = \<lparr>spec = sp, mtype = spec_type sp, attrs = Map.empty\<rparr>
           in case set_defaults k (arguments sp) m0 of
                (Some e, _) \<Rightarrow> Inl e
              | (None, m1) \<Rightarrow>
                  (case set_arguments kwargs (set_raw m1 ''time'' (VInt 0)) of
                     (Some e, _) \<Rightarrow> Inl e
                   | (None, m2) \<Rightarrow> Inr m2)))"

definition new_Message :: "key \<Rightarrow> (string \<times> 'f pyval) list \<Rightarrow> error + 'f Message" where
  \<comment> \<open>the call \<open>Message(type_, **arguments)\<close>: a keyword named \<open>self\<close> or \<open>type_\<close> is a
      second value for a parameter of \<open>__init__\<close>, and the call raises TypeError before
      the body runs\<close>
  "new_Message k kwargs =
     (if ''self'' \<in> set (map fst kwargs) \<or> ''type_'' \<in> set (map fst kwargs)
      then Inl (TypeError [InterpText])
      else Message_init k kwargs)"

definition get_status_byte :: "'f Message \<Rightarrow> error + int" where
  \<comment> \<open>the property \<open>status_byte\<close>\<close>
  "get_status_byte m =
     (let byte = status_byte (spec m)
      in if byte < 0xf0 then
           (case getattr m ''channel'' of
              Inl e \<Rightarrow> Inl e
            | Inr (VInt channel) \<Rightarrow> Inr (byte OR channel)
            | Inr _ \<Rightarrow> Inl (TypeError [InterpText]))
         else Inr byte)"

fun bytes_loop :: "'f Message \<Rightarrow> string list \<Rightarrow> 'f pyval list \<Rightarrow> error + 'f pyval list" where
  "bytes_loop m [] message_bytes = Inr message_bytes"
| "bytes_loop m (name # names) message_bytes =
     (case getattr m name of
        Inl e \<Rightarrow> Inl e
      | Inr v \<Rightarrow>
          (case globals_encode name of
             None \<Rightarrow> bytes_loop m names (message_bytes @ [v])
           | Some encode \<Rightarrow>
               (case encode v of
                  Inl e \<Rightarrow> Inl e
                | Inr bs \<Rightarrow> bytes_loop m names (message_bytes @ bs))))"

definition bytes :: "'f Message \<Rightarrow> error + 'f pyval list" where
  "bytes m =
     (case get_status_byte m of
        Inl e \<Rightarrow> Inl e
      | Inr sb \<Rightarrow> bytes_loop m (arguments (spec m)) [VInt sb])"

definition key_of :: "'f Message \<Rightarrow> error + 'f pyval list" where
  \<comment> \<open>the local function \<open>key\<close> of \<open>__eq__\<close>\<close>
  "key_of msg =
     (if list_all (\<lambda>arg. attrs msg arg \<noteq> None) (arguments (spec msg))
      then Inr (VStr (mtype msg) # map (\<lambda>arg. the (attrs msg arg)) (arguments (spec msg)))
      else Inl (AttributeError [InterpText]))"

definition msg_eq :: "'f Message \<Rightarrow> 'f Message \<Rightarrow> error + bool" where
  \<comment> \<open>\<open>__eq__\<close> on two messages; the values that fields hold are integers and tuples of
      integers, on which \<open>==\<close> is equality\<close>
  "msg_eq self other =
     (case key_of self of
        Inl e \<Rightarrow> Inl e
      | Inr a \<Rightarrow> (case key_of other of Inl e \<Rightarrow> Inl e | Inr b \<Rightarrow> Inr (a = b)))"

fun copy_arguments ::
  "'f Message \<Rightarrow> (string \<rightharpoonup> 'f pyval) \<Rightarrow> string list \<Rightarrow> error + (string \<times> 'f pyval) list" where
  \<comment> \<open>the loop of \<open>copy\<close> that fills the dictionary \<open>arguments\<close>\<close>
  "copy_arguments m overrides [] = Inr []"
| "copy_arguments m overrides (name # names) =
     (case (case overrides name of Some v \<Rightarrow> Inr v | None \<Rightarrow> getattr m name) of
        Inl e \<Rightarrow> Inl e
      | Inr v \<Rightarrow>
          (case copy_arguments m overrides names of
             Inl e \<Rightarrow> Inl e
           | Inr rest \<Rightarrow> Inr ((name, v) # rest)))"

definition copy :: "'f Message \<Rightarrow> (string \<rightharpoonup> 'f pyval) \<Rightarrow> error + 'f Message" where
  \<comment> \<open>the call \<open>m.copy(**overrides)\<close> of \<open>copy(self, **overrides)\<close>: an override named
      \<open>self\<close> is a second value for the parameter \<open>self\<close>, and the call raises
      TypeError before the body runs\<close>
  "copy m overrides =
     (if overrides ''self'' \<noteq> None then Inl (TypeError [InterpText])
      else
        (case copy_arguments m overrides (arguments (spec m) @ [''time'']) of
           Inl e \<Rightarrow> Inl e
         | Inr args \<Rightarrow> new_Message (KStr (mtype m)) args))"

section \<open>Text\<close>

function py_words :: "string \<Rightarrow> string list" where
  \<comment> \<open>\<open>text.split()\<close>: the maximal runs of characters that are not whitespace\<close>
  "py_words s =
     (case dropWhile is_space s of
        [] \<Rightarrow> []
      | c # cs \<Rightarrow>
          (c # takeWhile (\<lambda>x. \<not> is_space x) cs) # py_words (dropWhile (\<lambda>x. \<not> is_space x) cs))"
  by pat_completeness auto
termination
proof (relation "measure length", goal_cases)
  case 1
  show ?case by simp
next
  case (2 s c cs)
  have "length (dropWhile (\<lambda>x. \<not> is_space x) cs) \<le> length cs"
    by (rule length_dropWhile_le)
  moreover have "length (dropWhile is_space s) \<le> length s"
    by (rule length_dropWhile_le)
  ultimately show ?case using 2 by simp
qed

declare py_words.simps [simp del]

fun py_split :: "char \<Rightarrow> string \<Rightarrow> string list" where
  \<comment> \<open>\<open>text.split(sep)\<close> for a separator of one character\<close>
  "py_split sep [] = [[]]"
| "py_split sep (c # cs) =
     (if c = sep then [] # py_split sep cs
      else (case py_split sep cs of
              [] \<Rightarrow> [[c]]
            | w # ws \<Rightarrow> (c # w) # ws))"

fun join :: "string \<Rightarrow> string list \<Rightarrow> string" where
  \<comment> \<open>\<open>sep.join(words)\<close>\<close>
  "join sep [] = []"
| "join sep [w] = w"
| "join sep (w # ws) = w @ sep @ join sep ws"

definition startswith :: "string \<Rightarrow> char \<Rightarrow> bool" where
  "startswith s c = (case s of [] \<Rightarrow> False | x # _ \<Rightarrow> x = c)"

definition endswith :: "string \<Rightarrow> char \<Rightarrow> bool" where
  "endswith s c = (case rev s of [] \<Rightarrow> False | x # _ \<Rightarrow> x = c)"

definition slice_1_m1 :: "string \<Rightarrow> string" where
  \<comment> \<open>\<open>value[1:-1]\<close>\<close>
  "slice_1_m1 s = drop 1 (take (length s - 1) s)"

fun truth :: "'f builtins \<Rightarrow> 'f pyval \<Rightarrow> bool" where
  \<comment> \<open>the truth value of \<open>if x:\<close>\<close>
  "truth B (VInt i) = (i \<noteq> 0)"
| "truth B (VFloat x) = float_truth B x"
| "truth B (VStr s) = (s \<noteq> [])"
| "truth B (VSeq xs) = (xs \<noteq> [])"
| "truth B VNone = False"

fun py_str :: "'f builtins \<Rightarrow> 'f pyval \<Rightarrow> string" where
  "py_str B (VInt i) = str_int i"
| "py_str B v = str_other B v"

definition text_parse_number :: "'f builtins \<Rightarrow> string \<Rightarrow> 'f pyval" where
  \<comment> \<open>the number, or \<open>VNone\<close>\<close>
  "text_parse_number B text =
     (case py_int text of
        Some i \<Rightarrow> VInt i
      | None \<Rightarrow> (case float_parse B text of Some x \<Rightarrow> VFloat x | None \<Rightarrow> VNone))"

fun parse_data_bytes :: "string list \<Rightarrow> int list option" where
  \<comment> \<open>\<open>[int(byte) for byte in pieces]\<close>; \<open>None\<close> is the ValueError of \<open>int\<close>\<close>
  "parse_data_bytes [] = Some []"
| "parse_data_bytes (byte # rest) =
     (case py_int byte of
        None \<Rightarrow> None
      | Some i \<Rightarrow> map_option ((#) i) (parse_data_bytes rest))"

fun parse_arguments ::
  "string list \<Rightarrow> string set \<Rightarrow> 'f Message \<Rightarrow> error + 'f Message" where
  \<comment> \<open>the loop of \<open>text_parse\<close> over \<open>arguments\<close>, with \<open>names_seen\<close> and the message\<close>
  "parse_arguments [] names_seen m = Inr m"
| "parse_arguments (argument # rest) names_seen m =
     (case py_split (CHR ''='') argument of
        [name, v] \<Rightarrow>
          if name \<in> names_seen then Inl (ValueError [Lit ''argument passed more than once''])
          else if name = ''data'' then
            (if \<not> startswith v (CHR ''('') \<and> endswith v (CHR '')'')
             then Inl (ValueError [Lit ''missing parentheses in data message''])
             else
               (case parse_data_bytes (py_split (CHR '','') (slice_1_m1 v)) of
                  None \<Rightarrow> Inl (ValueError [Lit ''unable to parse data bytes''])
                | Some data_bytes \<Rightarrow>
                    (case setattr m ''data'' (VSeq (map VInt data_bytes)) of
                       (Some e, _) \<Rightarrow> Inl e
                     | (None, m1) \<Rightarrow> parse_arguments rest (insert name names_seen) m1)))
          else
            (case py_int v of
               None \<Rightarrow> Inl (ValueError [InterpText])
             | Some i \<Rightarrow>
                 (case setattr m name (VInt i) of
                    (Some (AttributeError t), _) \<Rightarrow> Inl (ValueError t)
                  | (Some e, _) \<Rightarrow> Inl e
                  | (None, m1) \<Rightarrow> parse_arguments rest (insert name names_seen) m1))
      | _ \<Rightarrow> Inl (ValueError [Lit ''missing or extraneous equals sign'']))"

definition text_parse :: "'f builtins \<Rightarrow> string \<Rightarrow> error + 'f Message" where
  "text_parse B text =
     (case py_words text of
        [] \<Rightarrow> Inl (ValueError [Lit ''string is empty''])
      | w # ws \<Rightarrow>
          (let time = text_parse_number B w;
               words = (if time \<noteq> VNone then ws else w # ws)
           in case words of
                [] \<Rightarrow> Inl (ValueError [Lit ''no message found after number''])
              | w0 # args \<Rightarrow>
                  (case new_Message (KStr w0) [] of
                     Inl e \<Rightarrow> Inl e
                   | Inr m \<Rightarrow>
                       (case (if truth B time then setattr m ''time'' time else (None, m)) of
                          (Some e, _) \<Rightarrow> Inl e
                        | (None, m1) \<Rightarrow> parse_arguments args {} m1))))"

text \<open>
  \<open>text_parse_stream\<close> calls the global name \<open>parse\<close>, which the module does not bind;
  it is a parameter here. The generator is modelled by the list of the pairs it yields
  and the exception that ends it, if one does.
\<close>

fun stream_loop ::
  "(string \<Rightarrow> error + 'f Message) \<Rightarrow> nat \<Rightarrow> string list
     \<Rightarrow> ('f Message option \<times> errmsg option) list \<times> error option" where
  "stream_loop parse line_number [] = ([], None)"
| "stream_loop parse line_number (line # rest) =
     (let line = strip (case py_split (CHR ''#'') line of [] \<Rightarrow> [] | x # _ \<Rightarrow> x)
      in if line \<noteq> [] then
           (case parse line of
              Inr m \<Rightarrow>
                (let (ys, r) = stream_loop parse (line_number + 1) rest
                 in ((Some m, None) # ys, r))
            | Inl (ValueError t) \<Rightarrow>
                (let (ys, r) = stream_loop parse (line_number + 1) rest
                 in ((None, Some ([Lit ''line '', Lit (str_nat line_number), Lit '': ''] @ t)) # ys, r))
            | Inl e \<Rightarrow> ([], Some e))
         else stream_loop parse (line_number + 1) rest)"

definition text_parse_stream ::
  "(string \<Rightarrow> error + 'f Message) \<Rightarrow> string list
     \<Rightarrow> ('f Message option \<times> errmsg option) list \<times> error option" where
  "text_parse_stream parse stream = stream_loop parse 1 stream"

fun format_fields :: "'f builtins \<Rightarrow> 'f Message \<Rightarrow> string list \<Rightarrow> error + string list" where
  \<comment> \<open>the loop of \<open>text_format\<close> over \<open>message._spec.arguments\<close>\<close>
  "format_fields B m [] = Inr []"
| "format_fields B m (name # names) =
     (case getattr m name of
        Inl e \<Rightarrow> Inl e
      | Inr v \<Rightarrow>
          (case (if name = ''data''
                 then (case py_tuple v of
                         Inl e \<Rightarrow> Inl e
                       | Inr bs \<Rightarrow> Inr (''('' @ join '','' (map (py_str B) bs) @ '')''))
                 else Inr (py_str B v)) of
             Inl e \<Rightarrow> Inl e
           | Inr text \<Rightarrow>
               (case format_fields B m names of
                  Inl e \<Rightarrow> Inl e
                | Inr ws \<Rightarrow> Inr ((name @ ''='' @ text) # ws))))"

definition text_format :: "'f builtins \<Rightarrow> 'f Message \<Rightarrow> bool \<Rightarrow> error + string" where
  "text_format B m include_time =
     (case (if include_time then map_sum id (\<lambda>t. [py_str B t]) (getattr m ''time'') else Inr []) of
        Inl e \<Rightarrow> Inl e
      | Inr tw \<Rightarrow>
          (case format_fields B m (arguments (spec m)) of
             Inl e \<Rightarrow> Inl e
           | Inr ws \<Rightarrow> Inr (join '' '' (tw @ [mtype m] @ ws))))"

section \<open>The rules of the specification\<close>

text \<open>
  The per-field rules as the specification words them, to compare \<open>setattr\<close> with:
  \<open>channel\<close> is an integer in 0..15, \<open>pos\<close> an integer in 0..16383, \<open>pitch\<close> an
  integer in -8192..8191, \<open>data\<close> a finite sequence of integers in 0..127, \<open>time\<close> an
  integer or a real number, and every other field an integer in 0..127.
\<close>

definition is_databyte :: "'f pyval \<Rightarrow> bool" where
  "is_databyte v = (case v of VInt i \<Rightarrow> 0 \<le> i \<and> i \<le> 127 | _ \<Rightarrow> False)"

fun elements :: "'f pyval \<Rightarrow> 'f pyval list option" where
  \<comment> \<open>the elements of a finite sequence; \<open>None\<close> for a value that is not a sequence\<close>
  "elements (VSeq xs) = Some xs"
| "elements (VStr s) = Some (map (\<lambda>c. VStr [c]) s)"
| "elements _ = None"

definition field_rule :: "string \<Rightarrow> 'f pyval \<Rightarrow> bool" where
  "field_rule name v =
     (if name = ''channel'' then (case v of VInt i \<Rightarrow> 0 \<le> i \<and> i \<le> 15 | _ \<Rightarrow> False)
      else if name = ''pos'' then (case v of VInt i \<Rightarrow> 0 \<le> i \<and> i \<le> 16383 | _ \<Rightarrow> False)
      else if name = ''pitch'' then (case v of VInt i \<Rightarrow> - 8192 \<le> i \<and> i \<le> 8191 | _ \<Rightarrow> False)
      else if name = ''data'' then
        (case elements v of Some xs \<Rightarrow> list_all is_databyte xs | None \<Rightarrow> False)
      else if name = ''time'' then (case v of VInt _ \<Rightarrow> True | VFloat _ \<Rightarrow> True | _ \<Rightarrow> False)
      else is_databyte v)"

definition stored_value :: "string \<Rightarrow> 'f pyval \<Rightarrow> 'f pyval" where
  \<comment> \<open>what a valid write stores: the value, and for \<open>data\<close> its elements as a tuple\<close>
  "stored_value name v =
     (if name = ''data'' then (case elements v of Some xs \<Rightarrow> VSeq xs | None \<Rightarrow> v) else v)"

definition default_value :: "key \<Rightarrow> string \<Rightarrow> 'f pyval" where
  \<comment> \<open>the default of a field: the empty sequence for \<open>data\<close>, the low four bits of an
      integer key for \<open>channel\<close>, and 0 otherwise\<close>
  "default_value k name =
     (if name = ''data'' then VSeq []
      else if name = ''channel'' then (case k of KInt i \<Rightarrow> VInt (i AND 0x0f) | KStr _ \<Rightarrow> VInt 0)
      else VInt 0)"

definition initial_attrs ::
  "key \<Rightarrow> MessageSpec \<Rightarrow> (string \<times> 'f pyval) list \<Rightarrow> string \<Rightarrow> 'f pyval option" where
  \<comment> \<open>the attributes of a new message: the last valid write of a keyword argument, the
      time 0, or the default of a field\<close>
  "initial_attrs k sp kwargs n =
     (case map_of (rev kwargs) n of
        Some x \<Rightarrow> Some (stored_value n x)
      | None \<Rightarrow>
          if n = ''time'' then Some (VInt 0)
          else if n \<in> set (arguments sp) then Some (default_value k n)
          else None)"

definition valid_message :: "'f Message \<Rightarrow> bool" where
  \<comment> \<open>bound to a type of the registry, every field and \<open>time\<close> present and within its rule\<close>
  "valid_message m =
     (spec m \<in> set get_message_specs \<and> mtype m = spec_type (spec m) \<and>
      dom (attrs m) = valid_attributes (spec m) \<and>
      (\<forall>name \<in> valid_attributes (spec m).
         \<exists>v. attrs m name = Some v \<and> field_rule name v \<and> stored_value name v = v))"

text \<open>
  The messages that the public interface produces: the results of the constructor, and
  what attribute writes (successful or not) make of them.
\<close>

inductive constructed :: "'f Message \<Rightarrow> bool" where
  constructed_init: "new_Message k kwargs = Inr m \<Longrightarrow> constructed m"
| constructed_write: "constructed m \<Longrightarrow> setattr m name v = (r, m') \<Longrightarrow> constructed m'"

definition no_floats :: "unit builtins" where
  \<comment> \<open>built-ins for evaluating texts in which no word is a float literal\<close>
  "no_floats = \<lparr>float_parse = (\<lambda>text. None), float_truth = (\<lambda>x. True), str_other = (\<lambda>v. [])\<rparr>"

section \<open>Attribute writes follow the rules\<close>

lemma is_databyte_simps:
  "is_databyte (VInt i) = (0 \<le> i \<and> i \<le> 127)"
  "is_databyte (VFloat x) = False"
  "is_databyte (VStr s) = False"
  "is_databyte (VSeq xs) = False"
  "is_databyte VNone = False"
  by (simp_all add: is_databyte_def)

lemma check_databyte_iff: "check_databyte v = Inr VNone \<longleftrightarrow> is_databyte v"
  by (cases v) (simp_all add: is_databyte_simps)

lemma check_databyte_cases: "check_databyte v = Inr VNone \<or> (\<exists>e. check_databyte v = Inl e)"
  by (cases v) simp_all

lemma check_each_databyte_iff:
  "check_each_databyte xs = Inr () \<longleftrightarrow> list_all is_databyte xs"
proof (induction xs)
  case Nil
  show ?case by simp
next
  case (Cons x xs)
  from check_databyte_cases [of x] show ?case
  proof
    assume a: "check_databyte x = Inr VNone"
    then have "is_databyte x" by (simp add: check_databyte_iff)
    with a Cons show ?thesis by simp
  next
    assume "\<exists>e. check_databyte x = Inl e"
    then obtain e where a: "check_databyte x = Inl e" by blast
    then have "\<not> is_databyte x" using check_databyte_iff [of x] by simp
    with a show ?thesis by simp
  qed
qed

lemma check_each_databyte_cases:
  "check_each_databyte xs = Inr () \<or> (\<exists>e. check_each_databyte xs = Inl e)"
  by (cases "check_each_databyte xs") auto

lemma py_tuple_elements:
  "py_tuple v = (case elements v of Some xs \<Rightarrow> Inr xs | None \<Rightarrow> Inl (TypeError [InterpText]))"
  by (cases v) simp_all

lemma check_data_ok:
  assumes "field_rule ''data'' v"
  shows "check_data v = Inr (stored_value ''data'' v)"
proof -
  from assms obtain xs where xs: "elements v = Some xs" "list_all is_databyte xs"
    by (auto simp: field_rule_def split: option.splits)
  then have "check_each_databyte xs = Inr ()" by (simp add: check_each_databyte_iff)
  with xs show ?thesis
    by (simp add: check_data_def py_tuple_elements stored_value_def)
qed

lemma check_data_fail:
  assumes "\<not> field_rule ''data'' v"
  shows "\<exists>e. check_data v = Inl e"
proof (cases "elements v")
  case None
  then show ?thesis by (simp add: check_data_def py_tuple_elements)
next
  case (Some xs)
  with assms have "\<not> list_all is_databyte xs" by (simp add: field_rule_def)
  then have "check_each_databyte xs \<noteq> Inr ()" by (simp add: check_each_databyte_iff)
  with check_each_databyte_cases [of xs] obtain e where "check_each_databyte xs = Inl e"
    by blast
  with Some show ?thesis by (simp add: check_data_def py_tuple_elements)
qed

lemma check_databyte_ok: "is_databyte v \<Longrightarrow> check_databyte v = Inr VNone"
  by (simp add: check_databyte_iff)

lemma check_databyte_fail: "\<not> is_databyte v \<Longrightarrow> \<exists>e. check_databyte v = Inl e"
  using check_databyte_cases [of v] by (simp add: check_databyte_iff)

lemma lookup_check_simps:
  "lookup_check ''time'' = check_time"
  "lookup_check ''channel'' = check_channel"
  "lookup_check ''pos'' = check_pos"
  "lookup_check ''pitch'' = check_pitch"
  "lookup_check ''data'' = check_data"
  by (simp_all add: lookup_check_def globals_check_def)

lemma lookup_check_other:
  "name \<noteq> ''time'' \<Longrightarrow> name \<noteq> ''channel'' \<Longrightarrow> name \<noteq> ''pos'' \<Longrightarrow> name \<noteq> ''pitch'' \<Longrightarrow>
   name \<noteq> ''data'' \<Longrightarrow> lookup_check name = check_databyte"
  by (simp add: lookup_check_def globals_check_def)

lemma field_rule_simps:
  "field_rule ''time'' v = (case v of VInt _ \<Rightarrow> True | VFloat _ \<Rightarrow> True | _ \<Rightarrow> False)"
  "field_rule ''channel'' v = (case v of VInt i \<Rightarrow> 0 \<le> i \<and> i \<le> 15 | _ \<Rightarrow> False)"
  "field_rule ''pos'' v = (case v of VInt i \<Rightarrow> 0 \<le> i \<and> i \<le> 16383 | _ \<Rightarrow> False)"
  "field_rule ''pitch'' v = (case v of VInt i \<Rightarrow> - 8192 \<le> i \<and> i \<le> 8191 | _ \<Rightarrow> False)"
  by (simp_all add: field_rule_def)

lemma field_rule_other:
  "name \<noteq> ''time'' \<Longrightarrow> name \<noteq> ''channel'' \<Longrightarrow> name \<noteq> ''pos'' \<Longrightarrow> name \<noteq> ''pitch'' \<Longrightarrow>
   name \<noteq> ''data'' \<Longrightarrow> field_rule name v = is_databyte v"
  by (simp add: field_rule_def)

lemma check_time_rule:
  "(field_rule ''time'' v \<longrightarrow> check_time v = Inr VNone) \<and>
   (\<not> field_rule ''time'' v \<longrightarrow> (\<exists>e. check_time v = Inl e))"
  by (cases v) (simp_all add: field_rule_simps)

lemma check_channel_rule:
  "(field_rule ''channel'' v \<longrightarrow> check_channel v = Inr VNone) \<and>
   (\<not> field_rule ''channel'' v \<longrightarrow> (\<exists>e. check_channel v = Inl e))"
  by (cases v) (simp_all add: field_rule_simps)

lemma check_pos_rule:
  "(field_rule ''pos'' v \<longrightarrow> check_pos v = Inr VNone) \<and>
   (\<not> field_rule ''pos'' v \<longrightarrow> (\<exists>e. check_pos v = Inl e))"
  by (cases v) (simp_all add: field_rule_simps MIN_SONGPOS_def MAX_SONGPOS_def)

lemma check_pitch_rule:
  "(field_rule ''pitch'' v \<longrightarrow> check_pitch v = Inr VNone) \<and>
   (\<not> field_rule ''pitch'' v \<longrightarrow> (\<exists>e. check_pitch v = Inl e))"
  by (cases v) (simp_all add: field_rule_simps MIN_PITCHWHEEL_def MAX_PITCHWHEEL_def)

lemma lookup_check_rule:
  "(field_rule name v \<longrightarrow>
      (\<exists>ret. lookup_check name v = Inr ret \<and> (name = ''data'' \<longrightarrow> ret = stored_value name v))) \<and>
   (\<not> field_rule name v \<longrightarrow> (\<exists>e. lookup_check name v = Inl e))"
proof -
  consider "name = ''time''" | "name = ''channel''" | "name = ''pos''" | "name = ''pitch''"
    | "name = ''data''"
    | "name \<noteq> ''time''" "name \<noteq> ''channel''" "name \<noteq> ''pos''" "name \<noteq> ''pitch''"
      "name \<noteq> ''data''"
    by blast
  then show ?thesis
  proof cases
    case 1
    with check_time_rule [of v] show ?thesis by (simp add: lookup_check_simps)
  next
    case 2
    with check_channel_rule [of v] show ?thesis by (simp add: lookup_check_simps)
  next
    case 3
    with check_pos_rule [of v] show ?thesis by (simp add: lookup_check_simps)
  next
    case 4
    with check_pitch_rule [of v] show ?thesis by (simp add: lookup_check_simps)
  next
    case 5
    with check_data_ok [of v] check_data_fail [of v] show ?thesis
      by (auto simp add: lookup_check_simps)
  next
    case 6
    then have "lookup_check name v = check_databyte v" "field_rule name v = is_databyte v"
      by (simp_all add: lookup_check_other field_rule_other)
    with check_databyte_ok [of v] check_databyte_fail [of v] 6 show ?thesis by auto
  qed
qed

lemma lookup_check_ok:
  assumes "field_rule name v"
  shows "\<exists>ret. lookup_check name v = Inr ret \<and> (name = ''data'' \<longrightarrow> ret = stored_value name v)"
  using lookup_check_rule [of name v] assms by blast

lemma lookup_check_fail:
  assumes "\<not> field_rule name v"
  shows "\<exists>e. lookup_check name v = Inl e"
  using lookup_check_rule [of name v] assms by blast

lemma setattr_ok:
  assumes "name \<in> valid_attributes (spec m)" "field_rule name v"
  shows "setattr m name v = (None, m\<lparr>attrs := (attrs m)(name \<mapsto> stored_value name v)\<rparr>)"
proof -
  from lookup_check_ok [OF assms(2)] obtain ret where
    r: "lookup_check name v = Inr ret" "name = ''data'' \<longrightarrow> ret = stored_value name v" by blast
  show ?thesis
    using assms(1) r by (auto simp: setattr_def Let_def stored_value_def)
qed

lemma setattr_invalid:
  assumes "name \<in> valid_attributes (spec m)" "\<not> field_rule name v"
  shows "\<exists>e. setattr m name v = (Some e, m)"
proof -
  from lookup_check_fail [OF assms(2)] obtain e where "lookup_check name v = Inl e" by blast
  then show ?thesis using assms(1) by (auto simp: setattr_def Let_def)
qed

lemma setattr_unknown:
  assumes "name \<notin> valid_attributes (spec m)"
  shows "\<exists>t. setattr m name v = (Some (AttributeError t), m)"
  using assms by (simp add: setattr_def)

section \<open>The constructor\<close>

lemma setattr_spec:
  "setattr m name v = (r, m') \<Longrightarrow> spec m' = spec m \<and> mtype m' = mtype m"
  by (auto simp: setattr_def Let_def split: if_splits sum.splits)

lemma setattr_cases:
  "setattr m name v =
     (if name \<in> valid_attributes (spec m) \<and> field_rule name v
      then (None, m\<lparr>attrs := (attrs m)(name \<mapsto> stored_value name v)\<rparr>)
      else (fst (setattr m name v), m)) \<and>
   (\<not> (name \<in> valid_attributes (spec m) \<and> field_rule name v) \<longrightarrow> fst (setattr m name v) \<noteq> None)"
proof (cases "name \<in> valid_attributes (spec m)")
  case False
  with setattr_unknown [OF False, of v] show ?thesis by auto
next
  case True
  show ?thesis
  proof (cases "field_rule name v")
    case True
    with \<open>name \<in> valid_attributes (spec m)\<close> show ?thesis by (simp add: setattr_ok)
  next
    case False
    with setattr_invalid [OF True False] show ?thesis by auto
  qed
qed

lemma and_15_bounds: "0 \<le> (i::int) AND 15 \<and> i AND 15 \<le> 15"
  by (simp add: AND_upper2)

lemma field_rule_default: "field_rule name (default_value k name :: 'f pyval)"
proof -
  consider "name = ''time''" | "name = ''channel''" | "name = ''pos''" | "name = ''pitch''"
    | "name = ''data''"
    | "name \<noteq> ''time''" "name \<noteq> ''channel''" "name \<noteq> ''pos''" "name \<noteq> ''pitch''"
      "name \<noteq> ''data''"
    by blast
  then show ?thesis
  proof cases
    case 2
    then show ?thesis
      using and_15_bounds by (cases k) (simp_all add: field_rule_simps default_value_def)
  next
    case 5
    then show ?thesis by (simp add: field_rule_def default_value_def)
  next
    case 6
    then show ?thesis by (simp add: field_rule_other default_value_def is_databyte_simps)
  qed (simp_all add: field_rule_simps default_value_def)
qed

lemma stored_value_default: "stored_value name (default_value k name) = default_value k name"
  by (simp add: stored_value_def default_value_def)

lemma set_defaults_step:
  "set_defaults k (name # names) m =
     (case setattr m name (default_value k name) of
        (Some e, m1) \<Rightarrow> (Some e, m1)
      | (None, m1) \<Rightarrow> set_defaults k names m1)"
  by (cases k) (auto simp: default_value_def split: prod.splits option.splits)

lemma set_defaults_ok:
  "set names \<subseteq> valid_attributes (spec m) \<Longrightarrow>
   \<exists>m'. set_defaults k names m = (None, m') \<and> spec m' = spec m \<and> mtype m' = mtype m \<and>
        (\<forall>n. attrs m' n = (if n \<in> set names then Some (default_value k n) else attrs m n))"
proof (induction names arbitrary: m)
  case Nil
  then show ?case by simp
next
  case (Cons name names)
  let ?m1 = "m\<lparr>attrs := (attrs m)(name \<mapsto> default_value k name)\<rparr>"
  from Cons.prems have "name \<in> valid_attributes (spec m)" by simp
  then have s: "setattr m name (default_value k name) = (None, ?m1)"
    by (simp add: setattr_ok field_rule_default stored_value_default)
  from Cons.prems have "set names \<subseteq> valid_attributes (spec ?m1)" by simp
  from Cons.IH [OF this] obtain m' where
    m': "set_defaults k names ?m1 = (None, m')" "spec m' = spec ?m1" "mtype m' = mtype ?m1"
        "\<forall>n. attrs m' n = (if n \<in> set names then Some (default_value k n) else attrs ?m1 n)"
    by blast
  have "set_defaults k (name # names) m = (None, m')"
    by (simp only: set_defaults_step s m'(1) prod.case option.case)
  moreover have "\<forall>n. attrs m' n =
      (if n \<in> set (name # names) then Some (default_value k n) else attrs m n)"
    using m'(4) by auto
  ultimately show ?case using m'(2,3) by simp
qed

lemma set_arguments_step:
  "set_arguments ((name, v) # rest) m =
     (if name \<in> valid_attributes (spec m) \<and> field_rule name v
      then set_arguments rest (m\<lparr>attrs := (attrs m)(name \<mapsto> stored_value name v)\<rparr>)
      else (fst (set_arguments ((name, v) # rest) m), m))  \<and>
   (\<not> (name \<in> valid_attributes (spec m) \<and> field_rule name v) \<longrightarrow>
      fst (set_arguments ((name, v) # rest) m) \<noteq> None)"
proof (cases "name \<in> valid_attributes (spec m) \<and> field_rule name v")
  case True
  then show ?thesis by (simp add: setattr_ok)
next
  case False
  with setattr_cases [of m name v] obtain e where "setattr m name v = (Some e, m)"
    by (metis option.exhaust prod.collapse)
  with False show ?thesis by (cases e) auto
qed

lemma set_arguments_fail:
  "(n, x) \<in> set kwargs \<Longrightarrow> \<not> (n \<in> valid_attributes (spec m) \<and> field_rule n x) \<Longrightarrow>
   fst (set_arguments kwargs m) \<noteq> None"
proof (induction kwargs arbitrary: m)
  case Nil
  then show ?case by simp
next
  case (Cons a kwargs)
  obtain name v where a: "a = (name, v)" by (cases a)
  show ?case
  proof (cases "name \<in> valid_attributes (spec m) \<and> field_rule name v")
    case False
    with set_arguments_step [of name v kwargs m] show ?thesis by (simp add: a)
  next
    case True
    let ?m1 = "m\<lparr>attrs := (attrs m)(name \<mapsto> stored_value name v)\<rparr>"
    from True Cons.prems a have "(n, x) \<in> set kwargs" by auto
    moreover from Cons.prems have "\<not> (n \<in> valid_attributes (spec ?m1) \<and> field_rule n x)" by simp
    ultimately have "fst (set_arguments kwargs ?m1) \<noteq> None" by (rule Cons.IH)
    with True set_arguments_step [of name v kwargs m] show ?thesis by (simp add: a)
  qed
qed

lemma set_arguments_ok:
  "set_arguments kwargs m = (None, m') \<Longrightarrow>
   spec m' = spec m \<and> mtype m' = mtype m \<and>
   (\<forall>(n, x) \<in> set kwargs. n \<in> valid_attributes (spec m) \<and> field_rule n x) \<and>
   (\<forall>n. attrs m' n =
      (case map_of (rev kwargs) n of Some x \<Rightarrow> Some (stored_value n x) | None \<Rightarrow> attrs m n))"
proof (induction kwargs arbitrary: m)
  case Nil
  then show ?case by simp
next
  case (Cons a kwargs)
  obtain name v where a: "a = (name, v)" by (cases a)
  let ?m1 = "m\<lparr>attrs := (attrs m)(name \<mapsto> stored_value name v)\<rparr>"
  from Cons.prems set_arguments_step [of name v kwargs m]
  have ok: "name \<in> valid_attributes (spec m) \<and> field_rule name v"
    by (auto simp: a)
  with Cons.prems set_arguments_step [of name v kwargs m]
  have "set_arguments kwargs ?m1 = (None, m')" by (simp add: a)
  from Cons.IH [OF this] have ih:
    "spec m' = spec m" "mtype m' = mtype m"
    "\<forall>(n, x) \<in> set kwargs. n \<in> valid_attributes (spec m) \<and> field_rule n x"
    "\<forall>n. attrs m' n =
      (case map_of (rev kwargs) n of Some x \<Rightarrow> Some (stored_value n x) | None \<Rightarrow> attrs ?m1 n)"
    by simp_all
  have "\<forall>n. attrs m' n =
      (case map_of (rev (a # kwargs)) n of Some x \<Rightarrow> Some (stored_value n x) | None \<Rightarrow> attrs m n)"
    using ih(4) by (auto simp: a map_add_def split: option.splits)
  with ih ok show ?case by (simp add: a)
qed

section \<open>Constructed messages are valid\<close>

lemma set_arguments_succeeds:
  "\<forall>(n, x) \<in> set kwargs. n \<in> valid_attributes (spec m) \<and> field_rule n x \<Longrightarrow>
   \<exists>m'. set_arguments kwargs m = (None, m')"
proof (induction kwargs arbitrary: m)
  case Nil
  then show ?case by simp
next
  case (Cons a kwargs)
  obtain name v where a: "a = (name, v)" by (cases a)
  let ?m1 = "m\<lparr>attrs := (attrs m)(name \<mapsto> stored_value name v)\<rparr>"
  from Cons.prems have ok: "name \<in> valid_attributes (spec m) \<and> field_rule name v"
    by (simp add: a)
  from Cons.prems have "\<forall>(n, x) \<in> set kwargs. n \<in> valid_attributes (spec ?m1) \<and> field_rule n x"
    by simp
  from Cons.IH [OF this] obtain m' where "set_arguments kwargs ?m1 = (None, m')" by blast
  with ok set_arguments_step [of name v kwargs m] show ?case by (simp add: a)
qed

lemma fold_channels_lookup:
  "fold (\<lambda>channel l. l(f channel \<mapsto> s)) cs l k = Some sp \<Longrightarrow> sp = s \<or> l k = Some sp"
proof (induction cs arbitrary: l)
  case Nil
  then show ?case by simp
next
  case (Cons c cs)
  from Cons.prems have "fold (\<lambda>channel l. l(f channel \<mapsto> s)) cs (l(f c \<mapsto> s)) k = Some sp"
    unfolding fold_simps comp_apply .
  from Cons.IH [OF this] show ?case by (cases "k = f c") auto
qed

lemma add_spec_lookup: "add_spec s l k = Some sp \<Longrightarrow> sp = s \<or> l k = Some sp"
  by (auto simp: add_spec_def Let_def split: if_splits dest: fold_channels_lookup)

lemma fold_add_spec_lookup:
  "fold add_spec specs l k = Some sp \<Longrightarrow> sp \<in> set specs \<or> l k = Some sp"
proof (induction specs arbitrary: l)
  case Nil
  then show ?case by simp
next
  case (Cons s specs)
  then have "sp \<in> set specs \<or> add_spec s l k = Some sp" by simp
  then show ?case using add_spec_lookup [of s l k sp] by auto
qed

lemma spec_lookup_mem: "spec_lookup k = Some sp \<Longrightarrow> sp \<in> set get_message_specs"
  using fold_add_spec_lookup [of get_message_specs Map.empty k sp]
  by (simp add: spec_lookup_def)

lemma initial_attrs_time:
  "(case map_of (rev kwargs) n of Some x \<Rightarrow> Some (stored_value n x)
    | None \<Rightarrow> ((\<lambda>n. if n \<in> set (arguments sp) then Some (default_value k n) else None)
                 (''time'' \<mapsto> VInt 0)) n) = initial_attrs k sp kwargs n"
  by (simp add: initial_attrs_def split: option.splits)

lemma new_Message_Inr:
  assumes "new_Message k kwargs = Inr m"
  shows "\<exists>sp. spec_lookup k = Some sp \<and> spec m = sp \<and> mtype m = spec_type sp \<and>
           (\<forall>(n, x) \<in> set kwargs. n \<in> valid_attributes sp \<and> field_rule n x) \<and>
           (\<forall>n. attrs m n = initial_attrs k sp kwargs n)"
proof -
  from assms have init: "Message_init k kwargs = Inr m"
    by (simp add: new_Message_def split: if_splits)
  then obtain sp where sp: "spec_lookup k = Some sp"
    by (cases "spec_lookup k") (simp_all add: Message_init_def)
  let ?m0 = "\<lparr>spec = sp, mtype = spec_type sp, attrs = Map.empty\<rparr> :: 'a Message"
  have "set (arguments sp) \<subseteq> valid_attributes (spec ?m0)" by (auto simp: valid_attributes_def)
  from set_defaults_ok [OF this, of k] obtain m1 where
    m1: "set_defaults k (arguments sp) ?m0 = (None, m1)" "spec m1 = sp" "mtype m1 = spec_type sp"
        "\<forall>n. attrs m1 n = (if n \<in> set (arguments sp) then Some (default_value k n) else None)"
    by auto
  let ?m1t = "set_raw m1 ''time'' (VInt 0)"
  obtain r m2 where r: "set_arguments kwargs ?m1t = (r, m2)" by (cases "set_arguments kwargs ?m1t")
  from init have "r = None \<and> m2 = m"
    by (cases r) (simp_all add: Message_init_def sp m1(1) r)
  with r have "set_arguments kwargs ?m1t = (None, m)" by simp
  from set_arguments_ok [OF this]
  have a: "spec m = spec ?m1t" "mtype m = mtype ?m1t"
    "\<forall>(n, x) \<in> set kwargs. n \<in> valid_attributes (spec ?m1t) \<and> field_rule n x"
    "\<forall>n. attrs m n =
      (case map_of (rev kwargs) n of Some x \<Rightarrow> Some (stored_value n x) | None \<Rightarrow> attrs ?m1t n)"
    by simp_all
  have b: "spec ?m1t = sp" "mtype ?m1t = spec_type sp" by (simp_all add: set_raw_def m1)
  have c: "attrs ?m1t =
      ((\<lambda>n. if n \<in> set (arguments sp) then Some (default_value k n) else None)(''time'' \<mapsto> VInt 0))"
    using m1(4) by (auto simp: set_raw_def)
  have "\<forall>n. attrs m n = initial_attrs k sp kwargs n"
    using a(4) unfolding c initial_attrs_time .
  with a(1,2,3) b sp show ?thesis by simp
qed

lemma reserved_names:
  "list_all (\<lambda>sp. ''self'' \<notin> valid_attributes sp \<and> ''type_'' \<notin> valid_attributes sp)
     get_message_specs"
  by code_simp

lemma new_Message_succeeds:
  assumes "spec_lookup k = Some sp"
    and "\<forall>(n, x) \<in> set kwargs. n \<in> valid_attributes sp \<and> field_rule n x"
  shows "\<exists>m. new_Message k kwargs = Inr m"
proof -
  let ?m0 = "\<lparr>spec = sp, mtype = spec_type sp, attrs = Map.empty\<rparr> :: 'a Message"
  have "set (arguments sp) \<subseteq> valid_attributes (spec ?m0)" by (auto simp: valid_attributes_def)
  from set_defaults_ok [OF this, of k] obtain m1 where
    m1: "set_defaults k (arguments sp) ?m0 = (None, m1)" "spec m1 = sp"
    by auto
  let ?m1t = "set_raw m1 ''time'' (VInt 0)"
  from assms(2) m1(2) have "\<forall>(n, x) \<in> set kwargs. n \<in> valid_attributes (spec ?m1t) \<and> field_rule n x"
    by (simp add: set_raw_def)
  from set_arguments_succeeds [OF this] obtain m where "set_arguments kwargs ?m1t = (None, m)"
    by blast
  with assms(1) m1(1) have init: "Message_init k kwargs = Inr m"
    by (simp add: Message_init_def)
  from assms(1) have "sp \<in> set get_message_specs" by (rule spec_lookup_mem)
  with reserved_names have "''self'' \<notin> valid_attributes sp" "''type_'' \<notin> valid_attributes sp"
    unfolding list_all_iff by blast+
  with assms(2) have "\<not> (''self'' \<in> set (map fst kwargs) \<or> ''type_'' \<in> set (map fst kwargs))"
    by auto
  with init have "new_Message k kwargs = Inr m" by (simp add: new_Message_def)
  then show ?thesis by blast
qed

lemma new_Message_fails:
  assumes "spec_lookup k = Some sp" and "(n, x) \<in> set kwargs"
    and "\<not> (n \<in> valid_attributes sp \<and> field_rule n x)"
  shows "\<exists>e. new_Message k kwargs = Inl e"
proof (cases "new_Message k kwargs :: error + 'a Message")
  case (Inl e)
  then show ?thesis by blast
next
  case (Inr m)
  from new_Message_Inr [OF Inr] assms show ?thesis by auto
qed

lemma field_rule_stored:
  assumes "field_rule n x"
  shows "field_rule n (stored_value n x) \<and> stored_value n (stored_value n x) = stored_value n x"
proof (cases "n = ''data''")
  case True
  with assms show ?thesis
    by (auto simp: field_rule_def stored_value_def split: option.splits)
next
  case False
  with assms show ?thesis by (simp add: stored_value_def)
qed

lemma setattr_valid:
  assumes "valid_message m" and "setattr m name v = (r, m')"
  shows "valid_message m'"
proof (cases "name \<in> valid_attributes (spec m) \<and> field_rule name v")
  case False
  with setattr_cases [of m name v] assms(2) have "m' = m" by auto
  with assms(1) show ?thesis by simp
next
  case True
  with setattr_ok [of name m v] assms(2)
  have m': "m' = m\<lparr>attrs := (attrs m)(name \<mapsto> stored_value name v)\<rparr>"
    by simp
  from True assms(1) have "insert name (dom (attrs m)) = valid_attributes (spec m)"
    by (auto simp: valid_message_def)
  with assms(1) True field_rule_stored [of name v] show ?thesis
    unfolding valid_message_def m' by auto
qed

lemma initial_attrs_None:
  "map_of (rev kwargs) n = None \<Longrightarrow>
   initial_attrs k sp kwargs n =
     (if n = ''time'' then Some (VInt 0)
      else if n \<in> set (arguments sp) then Some (default_value k n) else None)"
  by (simp add: initial_attrs_def)

lemma initial_attrs_Some:
  "map_of (rev kwargs) n = Some x \<Longrightarrow> initial_attrs k sp kwargs n = Some (stored_value n x)"
  by (simp add: initial_attrs_def)

lemma new_Message_valid:
  assumes "new_Message k kwargs = Inr (m :: 'f Message)"
  shows "valid_message m"
proof -
  from new_Message_Inr [OF assms] obtain sp where
    sp: "spec_lookup k = Some sp" "spec m = sp" "mtype m = spec_type sp"
        "\<forall>(n, x) \<in> set kwargs. n \<in> valid_attributes sp \<and> field_rule n x"
        "\<forall>n. attrs m n = initial_attrs k sp kwargs n"
    by blast
  have mem: "spec m \<in> set get_message_specs" using sp(1,2) spec_lookup_mem by blast
  have kw: "n \<in> valid_attributes sp \<and> field_rule n x" if "map_of (rev kwargs) n = Some x" for n x
  proof -
    from that have "(n, x) \<in> set kwargs" using map_of_SomeD [of "rev kwargs" n x] by simp
    with sp(4) show ?thesis by blast
  qed
  have vals: "(n \<in> valid_attributes sp \<longrightarrow>
                (\<exists>v. attrs m n = Some v \<and> field_rule n v \<and> stored_value n v = v)) \<and>
              (n \<notin> valid_attributes sp \<longrightarrow> attrs m n = None)" for n
  proof (cases "map_of (rev kwargs) n")
    case (Some x)
    from kw [OF Some] field_rule_stored [of n x] initial_attrs_Some [OF Some, of k sp] sp(5)
    show ?thesis by simp
  next
    case None
    have eq: "attrs m n = (if n = ''time'' then Some (VInt 0)
      else if n \<in> set (arguments sp) then Some (default_value k n) else None)"
      using initial_attrs_None [OF None, of k sp] sp(5) by simp
    show ?thesis
    proof (cases "n = ''time''")
      case True
      with eq show ?thesis
        by (simp add: valid_attributes_def field_rule_simps stored_value_def)
    next
      case False
      have "field_rule n (default_value k n :: 'f pyval)"
        "stored_value n (default_value k n :: 'f pyval) = default_value k n"
        by (rule field_rule_default, rule stored_value_default)
      with eq False show ?thesis
        by (simp add: valid_attributes_def)
    qed
  qed
  have dom: "dom (attrs m) = valid_attributes (spec m)"
  proof (rule set_eqI)
    fix n
    from vals [of n] show "n \<in> dom (attrs m) \<longleftrightarrow> n \<in> valid_attributes (spec m)"
      unfolding sp(2) by (cases "n \<in> valid_attributes sp") (auto simp: dom_def)
  qed
  from vals have "\<forall>name \<in> valid_attributes (spec m).
      \<exists>v. attrs m name = Some v \<and> field_rule name v \<and> stored_value name v = v"
    unfolding sp(2) by blast
  with mem sp(2,3) dom show ?thesis unfolding valid_message_def by blast
qed

lemma constructed_valid: "constructed m \<Longrightarrow> valid_message m"
proof (induction rule: constructed.induct)
  case (constructed_init k kwargs m)
  then show ?case by (rule new_Message_valid)
next
  case (constructed_write m name v r m')
  then show ?case using setattr_valid by blast
qed

section \<open>The registry and the bytes of a pitchwheel message\<close>

lemma spec_lookup_type:
  "list_all (\<lambda>sp. spec_lookup (KStr (spec_type sp)) = Some sp) get_message_specs"
  by code_simp

lemma spec_lookup_of_type:
  assumes "sp \<in> set get_message_specs"
  shows "spec_lookup (KStr (spec_type sp)) = Some sp"
  using spec_lookup_type assms unfolding list_all_iff by blast

lemma channel_specs:
  "list_all (\<lambda>sp. status_byte sp < 0xf0 \<longrightarrow> ''channel'' \<in> set (arguments sp)) get_message_specs"
  by code_simp

lemma spec_lookup_channel_keys:
  "\<forall>k \<in> set [0x80..0xEF].
     (case spec_lookup (KInt k) of
        Some sp \<Rightarrow> status_byte sp = k AND 0xF0 \<and> status_byte sp < 0xF0 \<and>
                  ''channel'' \<in> set (arguments sp) \<and> (k AND 0xF0) OR (k AND 0x0F) = k
      | None \<Rightarrow> False)"
  by code_simp

lemma valid_field:
  assumes "valid_message m" "name \<in> set (arguments (spec m))"
  shows "\<exists>v. attrs m name = Some v \<and> field_rule name v \<and> stored_value name v = v"
  using assms unfolding valid_message_def valid_attributes_def by blast

lemma valid_channel:
  assumes "valid_message m" "''channel'' \<in> set (arguments (spec m))"
  shows "\<exists>c. attrs m ''channel'' = Some (VInt c) \<and> 0 \<le> c \<and> c \<le> 15"
proof -
  from valid_field [OF assms] obtain v where
    v: "attrs m ''channel'' = Some v" "field_rule ''channel'' v" by blast
  then show ?thesis by (cases v) (simp_all add: field_rule_simps)
qed

lemma valid_pitch:
  assumes "valid_message m" "''pitch'' \<in> set (arguments (spec m))"
  shows "\<exists>p. attrs m ''pitch'' = Some (VInt p) \<and> - 8192 \<le> p \<and> p \<le> 8191"
proof -
  from valid_field [OF assms] obtain v where
    v: "attrs m ''pitch'' = Some v" "field_rule ''pitch'' v" by blast
  then show ?thesis by (cases v) (simp_all add: field_rule_simps)
qed

lemma get_status_byte_channel:
  assumes "attrs m ''channel'' = Some (VInt c)"
  shows "get_status_byte m =
           Inr (if status_byte (spec m) < 0xf0 then status_byte (spec m) OR c
                else status_byte (spec m))"
  using assms by (simp add: get_status_byte_def getattr_def Let_def)

lemma pitchwheel_spec:
  assumes "valid_message m" "mtype m = ''pitchwheel''"
  shows "spec m = mk_spec 0xe0 ''pitchwheel'' [''channel'', ''pitch''] 3"
proof -
  from assms have "spec m \<in> set get_message_specs" "spec_type (spec m) = ''pitchwheel''"
    by (simp_all add: valid_message_def)
  with spec_lookup_of_type [of "spec m"]
  have "spec_lookup (KStr ''pitchwheel'') = Some (spec m)" by simp
  moreover have "spec_lookup (KStr ''pitchwheel'') =
      Some (mk_spec 0xe0 ''pitchwheel'' [''channel'', ''pitch''] 3)"
    by code_simp
  ultimately show ?thesis by simp
qed

lemma pitchwheel_bytes_valid:
  assumes "valid_message m" "mtype m = ''pitchwheel''"
  shows "\<exists>c p. attrs m ''channel'' = Some (VInt c) \<and> attrs m ''pitch'' = Some (VInt p) \<and>
           0 \<le> c \<and> c \<le> 15 \<and> - 8192 \<le> p \<and> p \<le> 8191 \<and>
           bytes m = Inr [VInt (0xE0 OR c), VInt ((p + 8192) AND 0x7F), VInt (drop_bit 7 (p + 8192))]"
proof -
  have sp: "spec m = mk_spec 0xe0 ''pitchwheel'' [''channel'', ''pitch''] 3"
    using assms by (rule pitchwheel_spec)
  then have args: "arguments (spec m) = [''channel'', ''pitch'']" "status_byte (spec m) = 0xe0"
    by (simp_all add: mk_spec_def)
  from valid_channel [OF assms(1)] args obtain c where
    c: "attrs m ''channel'' = Some (VInt c)" "0 \<le> c" "c \<le> 15" by auto
  from valid_pitch [OF assms(1)] args obtain p where
    p: "attrs m ''pitch'' = Some (VInt p)" "- 8192 \<le> p" "p \<le> 8191" by auto
  have "bytes m = Inr [VInt (0xE0 OR c), VInt ((p + 8192) AND 0x7F), VInt (drop_bit 7 (p + 8192))]"
    by (simp add: bytes_def get_status_byte_channel [OF c(1)] args getattr_def c(1) p(1)
        globals_encode_def encode_channel_def MIN_PITCHWHEEL_def Let_def)
  with c p show ?thesis by blast
qed

section \<open>Encoding\<close>

text \<open>
  Claim C7. For every pitch \<open>p\<close> in -8192..8191, the encoding of a pitchwheel message
  with that pitch is the status byte followed by exactly the two bytes
  \<open>(p + 8192) AND 0x7F\<close> and \<open>(p + 8192) >> 7\<close>, low seven bits first. This holds for every
  pitchwheel message that the interface produces, and the message constructed with
  channel \<open>c\<close> and pitch \<open>p\<close> exists and has the status byte \<open>0xE0 OR c\<close>.
\<close>

theorem pitchwheel_bytes:
  "(constructed m \<and> mtype m = ''pitchwheel'' \<longrightarrow>
      (\<exists>c p. attrs m ''channel'' = Some (VInt c) \<and> attrs m ''pitch'' = Some (VInt p) \<and>
         - 8192 \<le> p \<and> p \<le> 8191 \<and>
         bytes m = Inr [VInt (0xE0 OR c), VInt ((p + 8192) AND 0x7F),
                        VInt (drop_bit 7 (p + 8192))])) \<and>
   (- 8192 \<le> q \<and> q \<le> 8191 \<and> 0 \<le> d \<and> d \<le> 15 \<longrightarrow>
      (\<exists>m' :: 'f Message.
         new_Message (KStr ''pitchwheel'') [(''channel'', VInt d), (''pitch'', VInt q)] = Inr m' \<and>
         bytes m' = Inr [VInt (0xE0 OR d), VInt ((q + 8192) AND 0x7F),
                         VInt (drop_bit 7 (q + 8192))]))"
proof (intro conjI impI)
  assume "constructed m \<and> mtype m = ''pitchwheel''"
  then have "valid_message m" "mtype m = ''pitchwheel''" by (simp_all add: constructed_valid)
  from pitchwheel_bytes_valid [OF this]
  show "\<exists>c p. attrs m ''channel'' = Some (VInt c) \<and> attrs m ''pitch'' = Some (VInt p) \<and>
         - 8192 \<le> p \<and> p \<le> 8191 \<and>
         bytes m = Inr [VInt (0xE0 OR c), VInt ((p + 8192) AND 0x7F),
                        VInt (drop_bit 7 (p + 8192))]"
    by blast
next
  assume r: "- 8192 \<le> q \<and> q \<le> 8191 \<and> 0 \<le> d \<and> d \<le> 15"
  let ?kw = "[(''channel'', VInt d), (''pitch'', VInt q)] :: (string \<times> 'f pyval) list"
  have l: "spec_lookup (KStr ''pitchwheel'') =
      Some (mk_spec 0xe0 ''pitchwheel'' [''channel'', ''pitch''] 3)"
    by code_simp
  have "\<forall>(n, x) \<in> set ?kw.
      n \<in> valid_attributes (mk_spec 0xe0 ''pitchwheel'' [''channel'', ''pitch''] 3) \<and> field_rule n x"
    using r by (simp add: valid_attributes_def mk_spec_def field_rule_simps)
  from new_Message_succeeds [OF l this] obtain m' :: "'f Message" where
    m': "new_Message (KStr ''pitchwheel'') ?kw = Inr m'" by blast
  from new_Message_Inr [OF m'] l have
    sp: "spec m' = mk_spec 0xe0 ''pitchwheel'' [''channel'', ''pitch''] 3"
    and "mtype m' = ''pitchwheel''"
    and at: "\<forall>n. attrs m' n =
      initial_attrs (KStr ''pitchwheel'') (mk_spec 0xe0 ''pitchwheel'' [''channel'', ''pitch''] 3) ?kw n"
    by (simp_all add: mk_spec_def)
  from new_Message_valid [OF m'] \<open>mtype m' = ''pitchwheel''\<close>
  have "\<exists>c p. attrs m' ''channel'' = Some (VInt c) \<and> attrs m' ''pitch'' = Some (VInt p) \<and>
           0 \<le> c \<and> c \<le> 15 \<and> - 8192 \<le> p \<and> p \<le> 8191 \<and>
           bytes m' = Inr [VInt (0xE0 OR c), VInt ((p + 8192) AND 0x7F), VInt (drop_bit 7 (p + 8192))]"
    by (rule pitchwheel_bytes_valid)
  moreover have "attrs m' ''channel'' = Some (VInt d)" "attrs m' ''pitch'' = Some (VInt q)"
    using at by (simp_all add: initial_attrs_def stored_value_def)
  ultimately have "bytes m' = Inr [VInt (0xE0 OR d), VInt ((q + 8192) AND 0x7F),
                         VInt (drop_bit 7 (q + 8192))]"
    by auto
  with m' show "\<exists>m' :: 'f Message.
         new_Message (KStr ''pitchwheel'') [(''channel'', VInt d), (''pitch'', VInt q)] = Inr m' \<and>
         bytes m' = Inr [VInt (0xE0 OR d), VInt ((q + 8192) AND 0x7F),
                         VInt (drop_bit 7 (q + 8192))]"
    by blast
qed

lemma projr_new_Message:
  "\<not> isl (r :: error + 'f Message) \<Longrightarrow> r = Inr (projr r)"
  by (cases r) simp_all

theorem pitchwheel_bytes_witness:
  "constructed (projr (new_Message (KStr ''pitchwheel'') [(''channel'', VInt 0), (''pitch'', VInt 0)]
                  :: error + unit Message)) \<and>
   mtype (projr (new_Message (KStr ''pitchwheel'') [(''channel'', VInt 0), (''pitch'', VInt 0)]
                  :: error + unit Message)) = ''pitchwheel'' \<and>
   bytes (projr (new_Message (KStr ''pitchwheel'') [(''channel'', VInt 0), (''pitch'', VInt 0)]
                  :: error + unit Message)) = Inr [VInt 0xE0, VInt 0x00, VInt 0x40] \<and>
   (- 8192 \<le> (0::int) \<and> (0::int) \<le> 8191 \<and> (0::int) \<le> 0 \<and> (0::int) \<le> 15) \<and>
   (\<exists>m' :: unit Message.
      new_Message (KStr ''pitchwheel'') [(''channel'', VInt 0), (''pitch'', VInt 0)] = Inr m' \<and>
      bytes m' = Inr [VInt 0xE0, VInt 0x00, VInt 0x40])"
proof -
  let ?r = "new_Message (KStr ''pitchwheel'') [(''channel'', VInt 0), (''pitch'', VInt 0)]
              :: error + unit Message"
  have "\<not> isl ?r" by code_simp
  then have r: "?r = Inr (projr ?r)" by (rule projr_new_Message)
  then have c: "constructed (projr ?r)" by (rule constructed_init)
  have t: "mtype (projr ?r) = ''pitchwheel''" by code_simp
  have a: "attrs (projr ?r) ''channel'' = Some (VInt 0)" "attrs (projr ?r) ''pitch'' = Some (VInt 0)"
    by code_simp+
  from pitchwheel_bytes [of "projr ?r" 0 0, where ?'f = unit] c t a
  show ?thesis by simp
qed

text \<open>
  Claim C1, at the input where it fails. The message of type \<open>program_change\<close> with the
  default fields encodes to two bytes, the status byte and the program, while the
  \<open>size\<close> of its type is 3.
\<close>

theorem program_change_bytes_shorter_than_size:
  "(case new_Message (KStr ''program_change'') [] :: error + unit Message of
      Inl e \<Rightarrow> False
    | Inr m \<Rightarrow> bytes m = Inr [VInt 0xC0, VInt 0] \<and> size (spec m) = 3)"
  by code_simp

section \<open>Attribute writes and the default channel\<close>

text \<open>
  Claim C6. Every attribute write is validated by the rule of its field before it is
  stored: a write to a field (or \<open>time\<close>) with a value that meets the rule stores the
  value, a write of a value that does not meet it raises and leaves the message as it
  was, a write to any name outside the fields and \<open>time\<close> is rejected with the message
  unchanged, and construction with a keyword argument that is not a field or does not
  meet its rule returns no message.
\<close>

theorem writes_are_validated:
  "valid_attributes (spec (m :: 'f Message)) = set (arguments (spec m)) \<union> {''time''} \<and>
   (name \<in> valid_attributes (spec m) \<and> field_rule name v \<longrightarrow>
      setattr m name v = (None, m\<lparr>attrs := (attrs m)(name \<mapsto> stored_value name v)\<rparr>)) \<and>
   (name \<in> valid_attributes (spec m) \<and> \<not> field_rule name v \<longrightarrow>
      (\<exists>e. setattr m name v = (Some e, m))) \<and>
   (name \<notin> valid_attributes (spec m) \<longrightarrow>
      (\<exists>t. setattr m name v = (Some (AttributeError t), m))) \<and>
   (spec_lookup k = Some sp \<and> (n, x) \<in> set kwargs \<and>
    \<not> (n \<in> valid_attributes sp \<and> field_rule n x) \<longrightarrow>
      (\<exists>e. (new_Message k kwargs :: error + 'f Message) = Inl e))"
  using setattr_ok [of name m v] setattr_invalid [of name m v] setattr_unknown [of name m v]
    new_Message_fails [of k sp n x kwargs]
  by (simp add: valid_attributes_def)

theorem writes_are_validated_witness:
  "(''note'' \<in> valid_attributes (spec (projr (new_Message (KStr ''note_on'') [] :: error + unit Message))) \<and>
    field_rule ''note'' (VInt 60 :: unit pyval) \<and>
    setattr (projr (new_Message (KStr ''note_on'') [] :: error + unit Message)) ''note'' (VInt 60) =
      (None, (projr (new_Message (KStr ''note_on'') [] :: error + unit Message))
               \<lparr>attrs := (attrs (projr (new_Message (KStr ''note_on'') [] :: error + unit Message)))
                           (''note'' \<mapsto> VInt 60)\<rparr>)) \<and>
   (''note'' \<in> valid_attributes (spec (projr (new_Message (KStr ''note_on'') [] :: error + unit Message))) \<and>
    \<not> field_rule ''note'' (VInt 128 :: unit pyval) \<and>
    (\<exists>e. setattr (projr (new_Message (KStr ''note_on'') [] :: error + unit Message)) ''note'' (VInt 128) =
       (Some e, projr (new_Message (KStr ''note_on'') [] :: error + unit Message)))) \<and>
   (''pitch'' \<notin> valid_attributes (spec (projr (new_Message (KStr ''note_on'') [] :: error + unit Message))) \<and>
    (\<exists>t. setattr (projr (new_Message (KStr ''note_on'') [] :: error + unit Message)) ''pitch'' (VInt 0) =
       (Some (AttributeError t), projr (new_Message (KStr ''note_on'') [] :: error + unit Message)))) \<and>
   (spec_lookup (KStr ''note_on'') = Some (mk_spec 0x90 ''note_on'' [''channel'', ''note'', ''velocity''] 3) \<and>
    (''note'', VInt 128) \<in> set [(''note'', VInt 128 :: unit pyval)] \<and>
    \<not> (''note'' \<in> valid_attributes (mk_spec 0x90 ''note_on'' [''channel'', ''note'', ''velocity''] 3) \<and>
       field_rule ''note'' (VInt 128 :: unit pyval)) \<and>
    (\<exists>e. (new_Message (KStr ''note_on'') [(''note'', VInt 128)] :: error + unit Message) = Inl e))"
proof -
  let ?m = "projr (new_Message (KStr ''note_on'') [] :: error + unit Message)"
  let ?sp = "mk_spec 0x90 ''note_on'' [''channel'', ''note'', ''velocity''] 3"
  have sp: "spec ?m = ?sp" by code_simp
  have l: "spec_lookup (KStr ''note_on'') = Some ?sp" by code_simp
  have v: "''note'' \<in> valid_attributes ?sp" "''pitch'' \<notin> valid_attributes ?sp"
    by (simp_all add: valid_attributes_def mk_spec_def)
  have f: "field_rule ''note'' (VInt 60 :: unit pyval)" "\<not> field_rule ''note'' (VInt 128 :: unit pyval)"
    by (simp_all add: field_rule_def is_databyte_simps)
  have s: "stored_value ''note'' (VInt 60 :: unit pyval) = VInt 60" by (simp add: stored_value_def)
  from writes_are_validated [of ?m "''note''" "VInt 60" "KStr ''note_on''" ?sp "''note''" "VInt 128"
      "[(''note'', VInt 128)]"]
    writes_are_validated [of ?m "''note''" "VInt 128" "KStr ''note_on''" ?sp "''note''" "VInt 128"
      "[(''note'', VInt 128)]"]
    writes_are_validated [of ?m "''pitch''" "VInt 0" "KStr ''note_on''" ?sp "''note''" "VInt 128"
      "[(''note'', VInt 128)]"]
  show ?thesis
    unfolding sp using v f l by (simp add: s)
qed

text \<open>
  Claim C8. A channel message constructed from an integer key \<open>k\<close> in 0x80..0xEF without
  an explicit channel has the channel \<open>k AND 0x0F\<close> and the status byte \<open>k\<close>; a channel
  supplied among the fields overrides the default. With no fields the construction
  succeeds.
\<close>

theorem channel_defaults_to_low_bits:
  "0x80 \<le> k \<and> k \<le> 0xEF \<longrightarrow>
     (\<exists>m0 :: 'f Message. new_Message (KInt k) [] = Inr m0 \<and>
        attrs m0 ''channel'' = Some (VInt (k AND 0x0F)) \<and> get_status_byte m0 = Inr k) \<and>
     (new_Message (KInt k) kwargs = Inr (m :: 'f Message) \<and> ''channel'' \<notin> fst ` set kwargs \<longrightarrow>
        attrs m ''channel'' = Some (VInt (k AND 0x0F)) \<and> get_status_byte m = Inr k) \<and>
     (new_Message (KInt k) kwargs = Inr m \<and> distinct (map fst kwargs) \<and>
      (''channel'', c) \<in> set kwargs \<longrightarrow>
        attrs m ''channel'' = Some c \<and>
        (\<exists>i. c = VInt i \<and> 0 \<le> i \<and> i \<le> 15 \<and> get_status_byte m = Inr ((k AND 0xF0) OR i)))"
proof (intro impI)
  assume "0x80 \<le> k \<and> k \<le> 0xEF"
  then have "k \<in> set [0x80..0xEF]" unfolding set_upto by simp
  with spec_lookup_channel_keys obtain sp where
    sp: "spec_lookup (KInt k) = Some sp" "status_byte sp = k AND 0xF0" "status_byte sp < 0xF0"
        "''channel'' \<in> set (arguments sp)" "(k AND 0xF0) OR (k AND 0x0F) = k"
    by (fastforce split: option.splits)
  have default: "attrs m' ''channel'' = Some (VInt (k AND 0x0F)) \<and> get_status_byte m' = Inr k"
    if m': "new_Message (KInt k) kw = Inr m'" and no: "''channel'' \<notin> fst ` set kw"
    for kw and m' :: "'f Message"
  proof -
    from new_Message_Inr [OF m'] sp(1)
    have a: "spec m' = sp" "\<forall>n. attrs m' n = initial_attrs (KInt k) sp kw n" by simp_all
    from no have "map_of (rev kw) ''channel'' = None"
      by (simp add: map_of_eq_None_iff)
    with a(2) sp(4) have ch: "attrs m' ''channel'' = Some (VInt (k AND 0x0F))"
      by (simp add: initial_attrs_None default_value_def)
    from get_status_byte_channel [OF ch] a(1) sp(2,3,5) show ?thesis using ch by simp
  qed
  have "\<forall>(n, x) \<in> set ([] :: (string \<times> 'f pyval) list). n \<in> valid_attributes sp \<and> field_rule n x"
    by simp
  from new_Message_succeeds [OF sp(1) this] obtain m0 :: "'f Message" where
    m0: "new_Message (KInt k) [] = Inr m0" by blast
  from default [OF m0] m0 have first: "\<exists>m0 :: 'f Message. new_Message (KInt k) [] = Inr m0 \<and>
        attrs m0 ''channel'' = Some (VInt (k AND 0x0F)) \<and> get_status_byte m0 = Inr k"
    by auto
  have third: "attrs m ''channel'' = Some c \<and>
        (\<exists>i. c = VInt i \<and> 0 \<le> i \<and> i \<le> 15 \<and> get_status_byte m = Inr ((k AND 0xF0) OR i))"
    if m: "new_Message (KInt k) kwargs = Inr m" and d: "distinct (map fst kwargs)"
      and c: "(''channel'', c) \<in> set kwargs"
  proof -
    from new_Message_Inr [OF m] sp(1)
    have a: "spec m = sp" "\<forall>n. attrs m n = initial_attrs (KInt k) sp kwargs n"
      "\<forall>(n, x) \<in> set kwargs. n \<in> valid_attributes sp \<and> field_rule n x" by simp_all
    from d have "distinct (map fst (rev kwargs))" by (simp add: rev_map [symmetric])
    moreover from c have "(''channel'', c) \<in> set (rev kwargs)" by simp
    ultimately have "map_of (rev kwargs) ''channel'' = Some c" by (rule map_of_is_SomeI)
    with a(2) have ch: "attrs m ''channel'' = Some c"
      by (simp add: initial_attrs_Some stored_value_def)
    from a(3) c have "field_rule ''channel'' c" by blast
    then obtain i where i: "c = VInt i" "0 \<le> i" "i \<le> 15"
      by (cases c) (simp_all add: field_rule_simps)
    from ch i(1) get_status_byte_channel [of m i] a(1) sp(2,3)
    have "get_status_byte m = Inr ((k AND 0xF0) OR i)" by simp
    with ch i show ?thesis by blast
  qed
  from first default [of kwargs m] third
  show "(\<exists>m0 :: 'f Message. new_Message (KInt k) [] = Inr m0 \<and>
        attrs m0 ''channel'' = Some (VInt (k AND 0x0F)) \<and> get_status_byte m0 = Inr k) \<and>
     (new_Message (KInt k) kwargs = Inr (m :: 'f Message) \<and> ''channel'' \<notin> fst ` set kwargs \<longrightarrow>
        attrs m ''channel'' = Some (VInt (k AND 0x0F)) \<and> get_status_byte m = Inr k) \<and>
     (new_Message (KInt k) kwargs = Inr m \<and> distinct (map fst kwargs) \<and>
      (''channel'', c) \<in> set kwargs \<longrightarrow>
        attrs m ''channel'' = Some c \<and>
        (\<exists>i. c = VInt i \<and> 0 \<le> i \<and> i \<le> 15 \<and> get_status_byte m = Inr ((k AND 0xF0) OR i)))"
    by blast
qed

section \<open>The keys of the registry\<close>

theorem channel_defaults_to_low_bits_witness:
  "((0x80 :: int) \<le> 0x93 \<and> (0x93 :: int) \<le> 0xEF) \<and>
   (\<exists>m0 :: unit Message. new_Message (KInt 0x93) [] = Inr m0 \<and>
      attrs m0 ''channel'' = Some (VInt 3) \<and> get_status_byte m0 = Inr 0x93) \<and>
   (new_Message (KInt 0x93) [] = Inr (projr (new_Message (KInt 0x93) [] :: error + unit Message)) \<and>
    ''channel'' \<notin> fst ` set ([] :: (string \<times> unit pyval) list) \<and>
    attrs (projr (new_Message (KInt 0x93) [] :: error + unit Message)) ''channel'' = Some (VInt 3) \<and>
    get_status_byte (projr (new_Message (KInt 0x93) [] :: error + unit Message)) = Inr 0x93) \<and>
   (new_Message (KInt 0x93) [(''channel'', VInt 5)] =
      Inr (projr (new_Message (KInt 0x93) [(''channel'', VInt 5)] :: error + unit Message)) \<and>
    distinct (map fst [(''channel'', VInt 5 :: unit pyval)]) \<and>
    (''channel'', VInt 5) \<in> set [(''channel'', VInt 5 :: unit pyval)] \<and>
    attrs (projr (new_Message (KInt 0x93) [(''channel'', VInt 5)] :: error + unit Message)) ''channel''
      = Some (VInt 5) \<and>
    get_status_byte (projr (new_Message (KInt 0x93) [(''channel'', VInt 5)] :: error + unit Message))
      = Inr 0x95)"
proof -
  let ?r = "new_Message (KInt 0x93) [] :: error + unit Message"
  let ?r5 = "new_Message (KInt 0x93) [(''channel'', VInt 5)] :: error + unit Message"
  have "\<not> isl ?r" by code_simp
  then have r: "?r = Inr (projr ?r)" by (rule projr_new_Message)
  have "\<not> isl ?r5" by code_simp
  then have r5: "?r5 = Inr (projr ?r5)" by (rule projr_new_Message)
  have k: "(0x80 :: int) \<le> 0x93 \<and> (0x93 :: int) \<le> 0xEF" by simp
  have n: "''channel'' \<notin> fst ` set ([] :: (string \<times> unit pyval) list)" by simp
  have d: "distinct (map fst [(''channel'', VInt 5 :: unit pyval)])"
    "(''channel'', VInt 5) \<in> set [(''channel'', VInt 5 :: unit pyval)]" by simp_all
  have b: "(0x93 :: int) AND 0x0F = 3" "((0x93 :: int) AND 0xF0) OR 5 = 0x95" by simp_all
  note t = channel_defaults_to_low_bits [of "0x93" "[]" "projr ?r" "VInt 5", unfolded b]
  note t5 = channel_defaults_to_low_bits
    [of "0x93" "[(''channel'', VInt 5)]" "projr ?r5" "VInt 5", unfolded b]
  from t k have "\<exists>m0 :: unit Message. new_Message (KInt 0x93) [] = Inr m0 \<and>
      attrs m0 ''channel'' = Some (VInt 3) \<and> get_status_byte m0 = Inr 0x93" by blast
  moreover from t k r n
  have "attrs (projr ?r) ''channel'' = Some (VInt 3) \<and> get_status_byte (projr ?r) = Inr 0x93"
    by blast
  moreover have "attrs (projr ?r5) ''channel'' = Some (VInt 5) \<and>
      get_status_byte (projr ?r5) = Inr 0x95"
  proof -
    from t5 k r5 d
    have "attrs (projr ?r5) ''channel'' = Some (VInt 5) \<and>
      (\<exists>i. (VInt 5 :: unit pyval) = VInt i \<and> 0 \<le> i \<and> i \<le> 15 \<and>
         get_status_byte (projr ?r5) = Inr (((0x93 :: int) AND 0xF0) OR i))"
      by blast
    then show ?thesis by auto
  qed
  ultimately show ?thesis using k r r5 n d by blast
qed

lemma fold_channels_dom:
  "dom (fold (\<lambda>channel l. l(f channel \<mapsto> s)) cs l) = f ` set cs \<union> dom l"
  by (induction cs arbitrary: l) auto

lemma add_spec_dom: "dom (add_spec sp l) = set (spec_keys sp) \<union> dom l"
  by (auto simp: add_spec_def spec_keys_def Let_def fold_channels_dom)

lemma fold_add_spec_dom:
  "dom (fold add_spec specs l) = set (concat (map spec_keys specs)) \<union> dom l"
  by (induction specs arbitrary: l) (auto simp: add_spec_dom)

lemma all_keys:
  "set (concat (map spec_keys get_message_specs)) =
   set (map KInt [0x80..0xFF] @ map (\<lambda>sp. KStr (spec_type sp)) get_message_specs)"
  by code_simp

lemma dom_spec_lookup:
  "dom spec_lookup = KInt ` {0x80..0xFF} \<union> (\<lambda>sp. KStr (spec_type sp)) ` set get_message_specs"
proof -
  have "dom spec_lookup = set (concat (map spec_keys get_message_specs))"
    by (simp add: spec_lookup_def fold_add_spec_dom)
  also have "\<dots> = set (map KInt [0x80..0xFF] @ map (\<lambda>sp. KStr (spec_type sp)) get_message_specs)"
    by (rule all_keys)
  also have "\<dots> = KInt ` {0x80..0xFF} \<union> (\<lambda>sp. KStr (spec_type sp)) ` set get_message_specs"
    unfolding set_append set_map set_upto ..
  finally show ?thesis .
qed

lemma spec_lookup_None_int: "spec_lookup (KInt i) = None \<longleftrightarrow> i < 0x80 \<or> 0xFF < i"
proof -
  have "spec_lookup (KInt i) = None \<longleftrightarrow> KInt i \<notin> dom spec_lookup" by (simp add: domIff)
  also have "\<dots> \<longleftrightarrow> i \<notin> {0x80..0xFF}" unfolding dom_spec_lookup by auto
  finally show ?thesis by auto
qed

lemma spec_lookup_None_str:
  "spec_lookup (KStr s) = None \<longleftrightarrow> s \<notin> spec_type ` set get_message_specs"
proof -
  have "spec_lookup (KStr s) = None \<longleftrightarrow> KStr s \<notin> dom spec_lookup" by (simp add: domIff)
  also have "\<dots> \<longleftrightarrow> s \<notin> spec_type ` set get_message_specs" unfolding dom_spec_lookup by auto
  finally show ?thesis .
qed

lemma ran_spec_lookup: "ran spec_lookup = set get_message_specs"
proof (rule set_eqI)
  fix sp
  show "sp \<in> ran spec_lookup \<longleftrightarrow> sp \<in> set get_message_specs"
    using spec_lookup_mem spec_lookup_of_type [of sp] by (auto simp: ran_def)
qed

lemma distinct_specs: "distinct get_message_specs"
  by code_simp

lemma length_specs: "length get_message_specs = 23"
  by (simp add: get_message_specs_def)

lemma card_registry: "card (ran spec_lookup) = 23"
  using distinct_card [OF distinct_specs] by (simp add: ran_spec_lookup length_specs)

lemma channel_aliases:
  "\<forall>sp \<in> set get_message_specs. status_byte sp < 0xF0 \<longrightarrow>
     (\<forall>c \<in> set [0..15]. spec_lookup (KInt (status_byte sp OR c)) = Some sp)"
  by code_simp

lemma system_types:
  "map status_byte (filter (\<lambda>sp. 0xF0 < status_byte sp) get_message_specs) = [0xF1..0xFF] \<and>
   (\<forall>sp \<in> set get_message_specs. 0xF0 < status_byte sp \<longrightarrow>
      size sp \<in> set [1, 2, 3] \<and> spec_lookup (KInt (status_byte sp)) = Some sp)"
  by code_simp

lemma channel_types:
  "length (filter (\<lambda>sp. status_byte sp < 0xF0) get_message_specs) = 7"
  by code_simp

lemma sysex_type:
  "spec_lookup (KInt 0xF0) = Some (mk_spec 0xf0 ''sysex'' [''data''] \<infinity>) \<and>
   filter (\<lambda>sp. size sp = \<infinity>) get_message_specs = [mk_spec 0xf0 ''sysex'' [''data''] \<infinity>]"
  by code_simp

section \<open>The types of the registry\<close>

text \<open>
  Claim C5 as stated fails: the registry holds 23 message types, not 21, and 15 of them,
  not 14, have the status bytes 0xF1..0xFF.
\<close>

theorem registry_not_21_types:
  "\<not> (card (ran spec_lookup) = 21 \<and>
      length (filter (\<lambda>sp. 0xF1 \<le> status_byte sp \<and> status_byte sp \<le> 0xFF) get_message_specs) = 14)"
  by (simp add: card_registry)

text \<open>
  Claim C5, amended. The registry holds exactly 23 message types: 7 channel types, each
  bound to its 16 status bytes, 15 system types of sizes 1 to 3 with the status bytes
  0xF1..0xFF, and the one unbounded type sysex at 0xF0. Resolving an integer key fails
  exactly when the key is outside 0x80..0xFF, and resolving a string exactly when it is
  not the name of one of the types.
\<close>

theorem registry_23_types:
  "card (ran spec_lookup) = 23 \<and> ran spec_lookup = set get_message_specs \<and>
   length (filter (\<lambda>sp. status_byte sp < 0xF0) get_message_specs) = 7 \<and>
   (\<forall>sp \<in> set get_message_specs. status_byte sp < 0xF0 \<longrightarrow>
      (\<forall>c \<in> {0..15}. spec_lookup (KInt (status_byte sp OR c)) = Some sp)) \<and>
   map status_byte (filter (\<lambda>sp. 0xF0 < status_byte sp) get_message_specs) = [0xF1..0xFF] \<and>
   (\<forall>sp \<in> set get_message_specs. 0xF0 < status_byte sp \<longrightarrow>
      size sp \<in> {1, 2, 3} \<and> spec_lookup (KInt (status_byte sp)) = Some sp) \<and>
   spec_lookup (KInt 0xF0) = Some (mk_spec 0xf0 ''sysex'' [''data''] \<infinity>) \<and>
   filter (\<lambda>sp. size sp = \<infinity>) get_message_specs = [mk_spec 0xf0 ''sysex'' [''data''] \<infinity>] \<and>
   (\<forall>i. spec_lookup (KInt i) = None \<longleftrightarrow> i < 0x80 \<or> 0xFF < i) \<and>
   (\<forall>s. spec_lookup (KStr s) = None \<longleftrightarrow> s \<notin> spec_type ` set get_message_specs)"
proof -
  have "\<forall>sp \<in> set get_message_specs. status_byte sp < 0xF0 \<longrightarrow>
      (\<forall>c \<in> {0..15}. spec_lookup (KInt (status_byte sp OR c)) = Some sp)"
    using channel_aliases unfolding set_upto .
  moreover have "\<forall>sp \<in> set get_message_specs. 0xF0 < status_byte sp \<longrightarrow>
      size sp \<in> {1, 2, 3} \<and> spec_lookup (KInt (status_byte sp)) = Some sp"
    using system_types by simp
  ultimately show ?thesis
    using card_registry ran_spec_lookup channel_types system_types sysex_type
      spec_lookup_None_int spec_lookup_None_str
    by blast
qed

theorem registry_23_types_witness:
  "mk_spec 0x90 ''note_on'' [''channel'', ''note'', ''velocity''] 3 \<in> set get_message_specs \<and>
   status_byte (mk_spec 0x90 ''note_on'' [''channel'', ''note'', ''velocity''] 3) < 0xF0 \<and>
   (3 :: int) \<in> {0..15} \<and>
   spec_lookup (KInt (0x90 OR 3)) = Some (mk_spec 0x90 ''note_on'' [''channel'', ''note'', ''velocity''] 3) \<and>
   mk_spec 0xf2 ''songpos'' [''pos''] 3 \<in> set get_message_specs \<and>
   0xF0 < status_byte (mk_spec 0xf2 ''songpos'' [''pos''] 3) \<and>
   spec_lookup (KInt 0xF2) = Some (mk_spec 0xf2 ''songpos'' [''pos''] 3) \<and>
   spec_lookup (KInt 0x7F) = None \<and> spec_lookup (KInt 0x100) = None \<and>
   spec_lookup (KInt 0xFF) \<noteq> None \<and>
   ''bogus'' \<notin> spec_type ` set get_message_specs \<and> spec_lookup (KStr ''bogus'') = None"
proof -
  let ?on = "mk_spec 0x90 ''note_on'' [''channel'', ''note'', ''velocity''] 3"
  let ?sp = "mk_spec 0xf2 ''songpos'' [''pos''] 3"
  have a: "?on \<in> set get_message_specs" "?sp \<in> set get_message_specs"
    by (simp_all add: get_message_specs_def)
  have b: "status_byte ?on = 0x90" "status_byte ?sp = 0xf2" by (simp_all add: mk_spec_def)
  have c: "''bogus'' \<notin> spec_type ` set get_message_specs"
    by (simp add: get_message_specs_def mk_spec_def)
  have d: "(3 :: int) \<in> {0..15}" by simp
  note c4 = registry_23_types [THEN conjunct2, THEN conjunct2, THEN conjunct2, THEN conjunct1]
  note c6 = registry_23_types [THEN conjunct2, THEN conjunct2, THEN conjunct2, THEN conjunct2,
    THEN conjunct2, THEN conjunct1]
  note c9 = registry_23_types [THEN conjunct2, THEN conjunct2, THEN conjunct2, THEN conjunct2,
    THEN conjunct2, THEN conjunct2, THEN conjunct2, THEN conjunct2, THEN conjunct1]
  note c10 = registry_23_types [THEN conjunct2, THEN conjunct2, THEN conjunct2, THEN conjunct2,
    THEN conjunct2, THEN conjunct2, THEN conjunct2, THEN conjunct2, THEN conjunct2]
  from c4 [rule_format, OF a(1) _ d] b(1)
  have e: "spec_lookup (KInt (0x90 OR 3)) = Some ?on" by simp
  from c6 [rule_format, OF a(2)] b(2)
  have f: "spec_lookup (KInt 0xF2) = Some ?sp" by simp
  from c9 have g: "spec_lookup (KInt 0x7F) = None"
    "spec_lookup (KInt 0x100) = None" "spec_lookup (KInt 0xFF) \<noteq> None" by simp_all
  from c10 c have h: "spec_lookup (KStr ''bogus'') = None" by blast
  show ?thesis using a b(1,2) c d e f g h by simp
qed

section \<open>Copies\<close>

lemma copy_arguments_cong:
  "(\<forall>n \<in> set names. ov1 n = ov2 n) \<Longrightarrow>
   copy_arguments m ov1 names = copy_arguments m ov2 names"
proof (induction names)
  case Nil
  show ?case by simp
next
  case (Cons n names)
  then have "copy_arguments m ov1 names = copy_arguments m ov2 names" "ov1 n = ov2 n"
    by simp_all
  then show ?case by (simp only: copy_arguments.simps)
qed

lemma copy_restrict:
  assumes "overrides ''self'' = None"
  shows "copy m overrides = copy m (overrides |` valid_attributes (spec m))"
proof -
  have "\<forall>n \<in> set (arguments (spec m) @ [''time'']).
      overrides n = (overrides |` valid_attributes (spec m)) n"
    by (simp add: valid_attributes_def restrict_map_def)
  from copy_arguments_cong [OF this] assms show ?thesis
    by (simp add: copy_def restrict_map_def)
qed

lemma copy_self: "overrides ''self'' \<noteq> None \<Longrightarrow> copy m overrides = Inl (TypeError [InterpText])"
  by (simp add: copy_def)

lemma copy_arguments_present:
  "(\<forall>n \<in> set names. attrs m n \<noteq> None) \<Longrightarrow>
   copy_arguments m overrides names =
     Inr (map (\<lambda>n. (n, case overrides n of Some v \<Rightarrow> v | None \<Rightarrow> the (attrs m n))) names)"
  by (induction names) (auto simp: getattr_def split: option.splits)

lemma map_of_map_pair:
  "map_of (map (\<lambda>n. (n, f n)) ns) n = (if n \<in> set ns then Some (f n) else None)"
  by (induction ns) simp_all

lemma copy_valid:
  assumes ns: "overrides ''self'' = None"
    and v: "valid_message (m :: 'f Message)"
    and ov: "\<forall>n \<in> valid_attributes (spec m). \<forall>x. overrides n = Some x \<longrightarrow> field_rule n x"
  shows "\<exists>m'. copy m overrides = Inr m' \<and> spec m' = spec m \<and> mtype m' = mtype m \<and>
           (\<forall>n. attrs m' n =
              (if n \<in> valid_attributes (spec m)
               then (case overrides n of Some x \<Rightarrow> Some (stored_value n x) | None \<Rightarrow> attrs m n)
               else None))"
proof -
  let ?names = "arguments (spec m) @ [''time'']"
  let ?val = "\<lambda>n. case overrides n of Some x \<Rightarrow> x | None \<Rightarrow> the (attrs m n)"
  let ?args = "map (\<lambda>n. (n, ?val n)) ?names"
  have names: "set ?names = valid_attributes (spec m)" by (auto simp: valid_attributes_def)
  from v have stored: "\<exists>x. attrs m n = Some x \<and> field_rule n x \<and> stored_value n x = x"
    if "n \<in> valid_attributes (spec m)" for n
    using that unfolding valid_message_def by blast
  then have "\<forall>n \<in> set ?names. attrs m n \<noteq> None" unfolding names by fastforce
  from copy_arguments_present [OF this]
  have args: "copy_arguments m overrides ?names = Inr ?args" .
  from v have l: "spec_lookup (KStr (mtype m)) = Some (spec m)"
    using spec_lookup_of_type [of "spec m"] by (simp add: valid_message_def)
  have rule: "field_rule n (?val n)" if "n \<in> valid_attributes (spec m)" for n
  proof (cases "overrides n")
    case None
    with stored [OF that] show ?thesis by auto
  next
    case (Some x)
    with ov that show ?thesis by simp
  qed
  then have "\<forall>(n, x) \<in> set ?args. n \<in> valid_attributes (spec m) \<and> field_rule n x"
    using names by auto
  from new_Message_succeeds [OF l this] obtain m' :: "'f Message" where
    m': "new_Message (KStr (mtype m)) ?args = Inr m'" by blast
  from new_Message_Inr [OF m'] l have a: "spec m' = spec m" "mtype m' = spec_type (spec m)"
    "\<forall>n. attrs m' n = initial_attrs (KStr (mtype m)) (spec m) ?args n" by simp_all
  have mo: "map_of (rev ?args) n = (if n \<in> valid_attributes (spec m) then Some (?val n) else None)"
    for n
    unfolding rev_map map_of_map_pair set_rev names ..
  have at: "attrs m' n =
      (if n \<in> valid_attributes (spec m)
       then (case overrides n of Some x \<Rightarrow> Some (stored_value n x) | None \<Rightarrow> attrs m n)
       else None)" for n
  proof (cases "n \<in> valid_attributes (spec m)")
    case True
    with mo [of n] a(3) have e: "attrs m' n = Some (stored_value n (?val n))"
      by (simp add: initial_attrs_Some)
    show ?thesis
    proof (cases "overrides n")
      case None
      with stored [OF True] e True show ?thesis by auto
    next
      case (Some x)
      with e True show ?thesis by simp
    qed
  next
    case False
    with mo [of n] have "map_of (rev ?args) n = None" by simp
    from initial_attrs_None [OF this] a(3) False show ?thesis
      by (simp add: valid_attributes_def)
  qed
  from args m' ns have "copy m overrides = Inr m'" by (simp add: copy_def)
  with a(1,2) at v show ?thesis by (auto simp: valid_message_def)
qed

text \<open>
  Claim C10 as stated fails at the override key \<open>self\<close>, which is neither a field of
  the message nor \<open>time\<close>: it is not ignored, the call raises TypeError.
\<close>

theorem copy_refuses_override_named_self:
  "''self'' \<notin> valid_attributes (spec (projr (new_Message (KStr ''note_on'') [] :: error + unit Message))) \<and>
   (case copy (projr (new_Message (KStr ''note_on'') [] :: error + unit Message))
           [''self'' \<mapsto> VInt 1] of
      Inl e \<Rightarrow> e = TypeError [InterpText]
    | Inr m' \<Rightarrow> False)"
  by code_simp

text \<open>
  Claim C10, amended. A copy ignores every override whose key is not \<open>self\<close> and is
  not a field of the message or \<open>time\<close>, such as \<open>type\<close>: when no override is named
  \<open>self\<close>, the copy is the one made from the recognized overrides alone, and when
  these meet their rules it is returned, with each recognized override stored and every
  other field as in the original, whatever other keys the overrides have. An override
  named \<open>self\<close> makes the call raise TypeError. Construction, in contrast, fails on
  a keyword argument that is not a field.
\<close>

theorem copy_ignores_unknown_overrides:
  "(overrides ''self'' = None \<longrightarrow>
      copy (m :: 'f Message) overrides = copy m (overrides |` valid_attributes (spec m))) \<and>
   (overrides ''self'' = None \<and> constructed m \<and>
    (\<forall>n \<in> valid_attributes (spec m). \<forall>x. overrides n = Some x \<longrightarrow> field_rule n x) \<longrightarrow>
      (\<exists>m'. copy m overrides = Inr m' \<and> spec m' = spec m \<and> mtype m' = mtype m \<and>
         (\<forall>n. attrs m' n =
            (if n \<in> valid_attributes (spec m)
             then (case overrides n of Some x \<Rightarrow> Some (stored_value n x) | None \<Rightarrow> attrs m n)
             else None)))) \<and>
   (overrides ''self'' \<noteq> None \<longrightarrow> copy m overrides = Inl (TypeError [InterpText])) \<and>
   (spec_lookup k = Some sp \<and> (name, v) \<in> set kwargs \<and> name \<notin> valid_attributes sp \<longrightarrow>
      (\<exists>e. (new_Message k kwargs :: error + 'f Message) = Inl e))"
  using copy_restrict [of overrides m] copy_valid [of overrides m] constructed_valid [of m]
    copy_self [of overrides m] new_Message_fails [of k sp name v kwargs]
  by blast

theorem copy_ignores_unknown_overrides_witness:
  "[''type'' \<mapsto> VStr ''note_off'', ''note'' \<mapsto> VInt 5, ''foo'' \<mapsto> (VNone :: unit pyval)] ''self'' = None \<and>
   constructed (projr (new_Message (KStr ''note_on'') [] :: error + unit Message)) \<and>
   valid_attributes (spec (projr (new_Message (KStr ''note_on'') [] :: error + unit Message))) =
     {''channel'', ''note'', ''velocity'', ''time''} \<and>
   field_rule ''note'' (VInt 5 :: unit pyval) \<and>
   (\<exists>m'. copy (projr (new_Message (KStr ''note_on'') [] :: error + unit Message))
            [''type'' \<mapsto> VStr ''note_off'', ''note'' \<mapsto> VInt 5, ''foo'' \<mapsto> VNone] = Inr m' \<and>
         mtype m' = ''note_on'' \<and> attrs m' ''note'' = Some (VInt 5) \<and>
         attrs m' ''velocity'' = Some (VInt 0) \<and> attrs m' ''foo'' = None \<and>
         attrs m' ''type'' = None) \<and>
   copy (projr (new_Message (KStr ''note_on'') [] :: error + unit Message))
        [''type'' \<mapsto> VStr ''note_off'', ''note'' \<mapsto> VInt 5, ''foo'' \<mapsto> VNone] =
     copy (projr (new_Message (KStr ''note_on'') [] :: error + unit Message)) [''note'' \<mapsto> VInt 5] \<and>
   [''self'' \<mapsto> (VInt 1 :: unit pyval)] ''self'' \<noteq> None \<and>
   copy (projr (new_Message (KStr ''note_on'') [] :: error + unit Message)) [''self'' \<mapsto> VInt 1] =
     Inl (TypeError [InterpText]) \<and>
   spec_lookup (KStr ''note_on'') = Some (mk_spec 0x90 ''note_on'' [''channel'', ''note'', ''velocity''] 3) \<and>
   (''foo'', VNone) \<in> set [(''foo'', VNone :: unit pyval)] \<and>
   ''foo'' \<notin> valid_attributes (mk_spec 0x90 ''note_on'' [''channel'', ''note'', ''velocity''] 3) \<and>
   (\<exists>e. (new_Message (KStr ''note_on'') [(''foo'', VNone)] :: error + unit Message) = Inl e)"
proof -
  let ?r = "new_Message (KStr ''note_on'') [] :: error + unit Message"
  let ?sp = "mk_spec 0x90 ''note_on'' [''channel'', ''note'', ''velocity''] 3"
  let ?ov = "[''type'' \<mapsto> VStr ''note_off'', ''note'' \<mapsto> VInt 5, ''foo'' \<mapsto> VNone]
               :: string \<rightharpoonup> unit pyval"
  let ?self = "[''self'' \<mapsto> VInt 1] :: string \<rightharpoonup> unit pyval"
  have "\<not> isl ?r" by code_simp
  then have "?r = Inr (projr ?r)" by (rule projr_new_Message)
  then have c: "constructed (projr ?r)" by (rule constructed_init)
  have sp: "spec (projr ?r) = ?sp" and ty: "mtype (projr ?r) = ''note_on''" by code_simp+
  have at: "attrs (projr ?r) ''velocity'' = Some (VInt 0)" by code_simp
  have va: "valid_attributes ?sp = {''channel'', ''note'', ''velocity'', ''time''}"
    by (auto simp: valid_attributes_def mk_spec_def)
  have vr: "valid_attributes (spec (projr ?r)) = {''channel'', ''note'', ''velocity'', ''time''}"
    unfolding sp by (rule va)
  have ns: "?ov ''self'' = None" by simp
  have ys: "?self ''self'' \<noteq> None" by simp
  have ov: "\<forall>n \<in> valid_attributes (spec (projr ?r)). \<forall>x. ?ov n = Some x \<longrightarrow> field_rule n x"
    unfolding vr by (simp add: field_rule_def is_databyte_simps)
  have re: "?ov |` valid_attributes (spec (projr ?r)) = [''note'' \<mapsto> VInt 5]"
    unfolding vr by (rule ext) (simp add: restrict_map_def)
  have l: "spec_lookup (KStr ''note_on'') = Some ?sp" by code_simp
  have f: "(''foo'', VNone) \<in> set [(''foo'', VNone :: unit pyval)]" "''foo'' \<notin> valid_attributes ?sp"
    unfolding va by simp_all
  have fr: "field_rule ''note'' (VInt 5 :: unit pyval)"
    by (simp add: field_rule_def is_databyte_simps)
  note t = copy_ignores_unknown_overrides
    [of ?ov "projr ?r" "KStr ''note_on''" ?sp "''foo''" VNone "[(''foo'', VNone)]"]
  note ts = copy_ignores_unknown_overrides
    [of ?self "projr ?r" "KStr ''note_on''" ?sp "''foo''" VNone "[(''foo'', VNone)]"]
  from t ns c ov obtain m' where m': "copy (projr ?r) ?ov = Inr m'" "mtype m' = mtype (projr ?r)"
    "\<forall>n. attrs m' n =
            (if n \<in> valid_attributes (spec (projr ?r))
             then (case ?ov n of Some x \<Rightarrow> Some (stored_value n x) | None \<Rightarrow> attrs (projr ?r) n)
             else None)"
    by blast
  from m'(3) have "attrs m' ''note'' = Some (VInt 5)" "attrs m' ''velocity'' = Some (VInt 0)"
    "attrs m' ''foo'' = None" "attrs m' ''type'' = None"
    unfolding vr by (simp_all add: stored_value_def at)
  with m'(1,2) ty have e1: "\<exists>m'. copy (projr ?r) ?ov = Inr m' \<and>
         mtype m' = ''note_on'' \<and> attrs m' ''note'' = Some (VInt 5) \<and>
         attrs m' ''velocity'' = Some (VInt 0) \<and> attrs m' ''foo'' = None \<and>
         attrs m' ''type'' = None" by auto
  from t ns have "copy (projr ?r) ?ov = copy (projr ?r) (?ov |` valid_attributes (spec (projr ?r)))"
    by blast
  then have e2: "copy (projr ?r) ?ov = copy (projr ?r) [''note'' \<mapsto> VInt 5]"
    unfolding re .
  from ts ys have e3: "copy (projr ?r) ?self = Inl (TypeError [InterpText])" by blast
  from t l f
  have e4: "\<exists>e. (new_Message (KStr ''note_on'') [(''foo'', VNone)] :: error + unit Message) = Inl e"
    by blast
  show ?thesis using ns c vr fr e1 e2 ys e3 l f e4 by blast
qed

section \<open>The leading time of a line\<close>

lemma setattr_other:
  assumes "setattr m name v = (None, m')" "n \<noteq> name"
  shows "attrs m' n = attrs m n"
proof (cases "name \<in> valid_attributes (spec m) \<and> field_rule name v")
  case True
  with setattr_ok [of name m v] assms show ?thesis by auto
next
  case False
  with setattr_cases [of m name v] assms(1) show ?thesis by simp
qed

lemma parse_arguments_Cons:
  assumes "py_split (CHR ''='') argument = [name, v]"
  shows "parse_arguments (argument # rest) names_seen m =
     (if name \<in> names_seen then Inl (ValueError [Lit ''argument passed more than once''])
      else if name = ''data'' then
        (if \<not> startswith v (CHR ''('') \<and> endswith v (CHR '')'')
         then Inl (ValueError [Lit ''missing parentheses in data message''])
         else
           (case parse_data_bytes (py_split (CHR '','') (slice_1_m1 v)) of
              None \<Rightarrow> Inl (ValueError [Lit ''unable to parse data bytes''])
            | Some data_bytes \<Rightarrow>
                (case setattr m ''data'' (VSeq (map VInt data_bytes)) of
                   (Some e, _) \<Rightarrow> Inl e
                 | (None, m1) \<Rightarrow> parse_arguments rest (insert name names_seen) m1)))
      else
        (case py_int v of
           None \<Rightarrow> Inl (ValueError [InterpText])
         | Some i \<Rightarrow>
             (case setattr m name (VInt i) of
                (Some (AttributeError t), _) \<Rightarrow> Inl (ValueError t)
              | (Some e, _) \<Rightarrow> Inl e
              | (None, m1) \<Rightarrow> parse_arguments rest (insert name names_seen) m1)))"
  using assms by simp

lemma parse_arguments_Inr:
  assumes "parse_arguments (argument # rest) names_seen m = Inr m'"
  shows "\<exists>name v x m1. py_split (CHR ''='') argument = [name, v] \<and> name \<notin> names_seen \<and>
           setattr m name x = (None, m1) \<and>
           parse_arguments rest (insert name names_seen) m1 = Inr m'"
proof -
  from assms obtain name v where s: "py_split (CHR ''='') argument = [name, v]"
    by (auto split: list.splits)
  note p = assms [unfolded parse_arguments_Cons [OF s]]
  from p have ns: "name \<notin> names_seen" by (auto split: if_splits)
  show ?thesis
  proof (cases "name = ''data''")
    case True
    with p ns obtain bs m1 where
      "setattr m ''data'' (VSeq (map VInt bs)) = (None, m1)"
      "parse_arguments rest (insert name names_seen) m1 = Inr m'"
      by (auto split: if_splits option.splits prod.splits)
    with s ns True show ?thesis by blast
  next
    case False
    with p ns obtain i m1 where
      "setattr m name (VInt i) = (None, m1)"
      "parse_arguments rest (insert name names_seen) m1 = Inr m'"
      by (auto split: if_splits option.splits prod.splits error.splits)
    with s ns show ?thesis by blast
  qed
qed

lemma parse_arguments_keeps:
  "parse_arguments args names_seen m = Inr m' \<Longrightarrow>
   \<forall>a \<in> set args. \<forall>v. py_split (CHR ''='') a \<noteq> [n, v] \<Longrightarrow>
   attrs m' n = attrs m n"
proof (induction args arbitrary: names_seen m)
  case Nil
  then show ?case by simp
next
  case (Cons a args)
  from parse_arguments_Inr [OF Cons.prems(1)] obtain name v x m1 where
    s: "py_split (CHR ''='') a = [name, v]" "setattr m name x = (None, m1)"
       "parse_arguments args (insert name names_seen) m1 = Inr m'"
    by blast
  from Cons.prems(2) s(1) have "n \<noteq> name" by auto
  from setattr_other [OF s(2) this] have "attrs m1 n = attrs m n" .
  moreover from Cons.prems(2) have "\<forall>a \<in> set args. \<forall>v. py_split (CHR ''='') a \<noteq> [n, v]" by simp
  from Cons.IH [OF s(3) this] have "attrs m' n = attrs m1 n" .
  ultimately show ?case by simp
qed

lemma text_parse_number_cases:
  "text_parse_number B w = VNone \<or> (\<exists>i. text_parse_number B w = VInt i) \<or>
   (\<exists>x. text_parse_number B w = VFloat x)"
  by (auto simp: text_parse_number_def split: option.splits)

lemma text_parse_timed:
  assumes w: "py_words text = w # w0 # args"
    and t: "text_parse_number B w = t" "t \<noteq> VNone"
    and m: "text_parse B text = Inr m"
  shows "\<exists>m1. attrs m1 ''time'' = Some (if truth B t then t else VInt 0) \<and>
           parse_arguments args {} m1 = Inr m"
proof -
  from m w t obtain m0 where m0: "new_Message (KStr w0) [] = Inr (m0 :: 'a Message)"
    by (cases "new_Message (KStr w0) [] :: error + 'a Message")
       (simp_all add: text_parse_def Let_def)
  from new_Message_Inr [OF m0] have time0: "attrs m0 ''time'' = Some (VInt 0)"
    by (auto simp: initial_attrs_def)
  from text_parse_number_cases [of B w] t have rule: "field_rule ''time'' t"
    by (auto simp: field_rule_simps)
  have v: "''time'' \<in> valid_attributes (spec m0)" by (simp add: valid_attributes_def)
  show ?thesis
  proof (cases "truth B t")
    case True
    let ?m1 = "m0\<lparr>attrs := (attrs m0)(''time'' \<mapsto> t)\<rparr>"
    from setattr_ok [OF v rule] have "setattr m0 ''time'' t = (None, ?m1)"
      by (simp add: stored_value_def)
    with m w t m0 True have "parse_arguments args {} ?m1 = Inr m"
      by (simp add: text_parse_def Let_def)
    with True show ?thesis by force
  next
    case False
    with m w t m0 have "parse_arguments args {} m0 = Inr m"
      by (simp add: text_parse_def Let_def)
    with time0 False show ?thesis by force
  qed
qed

text \<open>
  Claim C9 as stated fails: the line \<open>0 note_on time=7\<close>, whose leading number is 0, is
  parsed to a message whose time is 7 and not the default 0, and \<open>5 note_on time=7\<close>,
  whose leading number is 5, to a message whose time is 7: an argument \<open>time=\<close> is a
  write of its own.
\<close>

theorem leading_time_overwritten:
  "text_parse_number no_floats ''0'' = VInt 0 \<and>
   (case text_parse no_floats ''0 note_on time=7'' of
      Inl e \<Rightarrow> False
    | Inr m \<Rightarrow> attrs m ''time'' = Some (VInt 7)) \<and>
   text_parse_number no_floats ''5'' = VInt 5 \<and>
   (case text_parse no_floats ''5 note_on time=7'' of
      Inl e \<Rightarrow> False
    | Inr m \<Rightarrow> attrs m ''time'' = Some (VInt 7))"
  by code_simp

text \<open>
  Claim C9, amended. When the leading word of a line is consumed as a number and no
  argument of the line is named \<open>time\<close>, the time of the parsed message is that number
  if and only if the number is nonzero: a leading 0 (or a float that is zero) leaves
  the time at its default 0, and any nonzero leading number is the time of the message.
\<close>

theorem leading_time_applied_iff_nonzero:
  assumes "py_words text = w # w0 # args"
    and "text_parse_number B w = t" and "t \<noteq> VNone"
    and "\<forall>a \<in> set args. \<forall>v. py_split (CHR ''='') a \<noteq> [''time'', v]"
    and "text_parse B text = Inr m"
  shows "(truth B t \<longrightarrow> attrs m ''time'' = Some t) \<and>
         (\<not> truth B t \<longrightarrow> attrs m ''time'' = Some (VInt 0)) \<and>
         (\<forall>i. t = VInt i \<longrightarrow> (truth B t \<longleftrightarrow> i \<noteq> 0)) \<and>
         (\<forall>x. t = VFloat x \<longrightarrow> (truth B t \<longleftrightarrow> float_truth B x))"
proof -
  from text_parse_timed [OF assms(1,2,3,5)] obtain m1 where
    m1: "attrs m1 ''time'' = Some (if truth B t then t else VInt 0)"
        "parse_arguments args {} m1 = Inr m"
    by blast
  from parse_arguments_keeps [OF m1(2) assms(4)] m1(1)
  have "attrs m ''time'' = Some (if truth B t then t else VInt 0)" by simp
  then show ?thesis by auto
qed

theorem leading_time_applied_iff_nonzero_witness:
  "py_words ''5 note_on note=60'' = [''5'', ''note_on'', ''note=60''] \<and>
   text_parse_number no_floats ''5'' = VInt 5 \<and> VInt 5 \<noteq> (VNone :: unit pyval) \<and>
   py_split (CHR ''='') ''note=60'' = [''note'', ''60''] \<and>
   text_parse no_floats ''5 note_on note=60'' =
     Inr (projr (text_parse no_floats ''5 note_on note=60'')) \<and>
   truth no_floats (VInt 5) \<and>
   attrs (projr (text_parse no_floats ''5 note_on note=60'')) ''time'' = Some (VInt 5) \<and>
   py_words ''0 note_on'' = [''0'', ''note_on''] \<and>
   text_parse_number no_floats ''0'' = VInt 0 \<and> VInt 0 \<noteq> (VNone :: unit pyval) \<and>
   text_parse no_floats ''0 note_on'' = Inr (projr (text_parse no_floats ''0 note_on'')) \<and>
   \<not> truth no_floats (VInt 0) \<and>
   attrs (projr (text_parse no_floats ''0 note_on'')) ''time'' = Some (VInt 0)"
proof -
  let ?r5 = "text_parse no_floats ''5 note_on note=60''"
  let ?r0 = "text_parse no_floats ''0 note_on''"
  have w5: "py_words ''5 note_on note=60'' = [''5'', ''note_on'', ''note=60'']" by code_simp
  have w0: "py_words ''0 note_on'' = [''0'', ''note_on'']" by code_simp
  have n5: "text_parse_number no_floats ''5'' = VInt 5" by code_simp
  have n0: "text_parse_number no_floats ''0'' = VInt 0" by code_simp
  have ne: "VInt 5 \<noteq> (VNone :: unit pyval)" "VInt 0 \<noteq> (VNone :: unit pyval)" by simp_all
  have s: "py_split (CHR ''='') ''note=60'' = [''note'', ''60'']" by code_simp
  have a5: "\<forall>a \<in> set [''note=60'']. \<forall>v. py_split (CHR ''='') a \<noteq> [''time'', v]"
    unfolding list.set ball_simps s by simp
  have a0: "\<forall>a \<in> set ([] :: string list). \<forall>v. py_split (CHR ''='') a \<noteq> [''time'', v]" by simp
  have "\<not> isl ?r5" by code_simp
  then have r5: "?r5 = Inr (projr ?r5)" by (rule projr_new_Message)
  have "\<not> isl ?r0" by code_simp
  then have r0: "?r0 = Inr (projr ?r0)" by (rule projr_new_Message)
  have tr: "truth no_floats (VInt 5)" "\<not> truth no_floats (VInt 0)" by simp_all
  from leading_time_applied_iff_nonzero [OF w5 n5 ne(1) a5 r5] tr
  have t5: "attrs (projr ?r5) ''time'' = Some (VInt 5)" by blast
  from leading_time_applied_iff_nonzero [OF w0 n0 ne(2) a0 r0] tr
  have t0: "attrs (projr ?r0) ''time'' = Some (VInt 0)" by blast
  show ?thesis using w5 w0 n5 n0 ne s r5 r0 tr t5 t0 by blast
qed

section \<open>Text parsing at the inputs where it goes wrong\<close>

text \<open>
  Claim C3, at inputs where it fails. The test before the error \<open>missing parentheses\<close>
  is \<open>not value.startswith('(') and value.endswith(')')\<close>, which is true only of a
  value that ends with a parenthesis and does not start with one. The values \<open>(1,23\<close>
  and \<open>123\<close> are not wrapped in parentheses, and they are parsed all the same, without
  their first and last characters: the results are the data (1, 2) and (2). The value
  \<open>1,2)\<close> is refused.
\<close>

theorem unwrapped_data_is_parsed:
  "(case text_parse no_floats ''sysex data=(1,23'' of
      Inl e \<Rightarrow> False
    | Inr m \<Rightarrow> mtype m = ''sysex'' \<and> attrs m ''data'' = Some (VSeq [VInt 1, VInt 2])) \<and>
   (case text_parse no_floats ''sysex data=123'' of
      Inl e \<Rightarrow> False
    | Inr m \<Rightarrow> mtype m = ''sysex'' \<and> attrs m ''data'' = Some (VSeq [VInt 2])) \<and>
   (case text_parse no_floats ''sysex data=1,2)'' of
      Inl e \<Rightarrow> e = ValueError [Lit ''missing parentheses in data message'']
    | Inr m \<Rightarrow> False)"
  by code_simp

text \<open>
  Claim C4, at an input where it fails. On the line \<open>note_on data=(1)\<close> the parser
  \<open>text_parse\<close> raises AttributeError, which the stream parser does not catch: no pair
  is yielded for the line, and the second line is never parsed.
\<close>

theorem stream_ends_at_attribute_error:
  "(case text_parse_stream (text_parse no_floats) [''note_on data=(1)'', ''note_on''] of
      (ys, r) \<Rightarrow> length ys = 0 \<and>
        r = Some (AttributeError
                   [Lit ''note_on'', Lit '' message has no attribute '', Lit ''data'']))"
  by code_simp

text \<open>
  The name \<open>parse\<close> that the stream parser calls is bound nowhere in the module; with
  the NameError of the call for \<open>parse\<close>, the first line that is not empty ends the
  stream.
\<close>

lemma stream_ends_at_name_error:
  "text_parse_stream (\<lambda>line. Inl (NameError [InterpText]) :: error + 'f Message)
     [''# comment only'', ''note_on note=60 velocity=32'', ''note_on''] =
   ([], Some (NameError [InterpText]))"
  by (simp add: text_parse_stream_def strip_def is_space_def)

text \<open>
  Claim C2, at the input where it fails. The sysex message with the empty data, which
  is the default, is formatted as \<open>sysex data=()\<close>, and parsing this line fails: the
  text between the parentheses is split into one empty piece, which is no integer.
\<close>

theorem empty_sysex_is_not_parsed_back:
  "(case new_Message (KStr ''sysex'') [] :: error + unit Message of
      Inl e \<Rightarrow> False
    | Inr m \<Rightarrow>
        attrs m ''data'' = Some (VSeq []) \<and>
        text_format no_floats m False = Inr ''sysex data=()'' \<and>
        (case text_parse no_floats ''sysex data=()'' of
           Inl e \<Rightarrow> e = ValueError [Lit ''unable to parse data bytes'']
         | Inr m' \<Rightarrow> False))"
  by code_simp

end
